theory Spec2Isabelle
  imports Main "HOL-Library.AList"
begin

section \<open>The habit store and statistics engine of \<^verbatim>\<open>src/lib/db/index.ts\<close>\<close>

text \<open>
  The engine keeps two entries in the browser's \<^verbatim>\<open>localStorage\<close>: the array of
  habits and the completion index, an object from day keys (\<^verbatim>\<open>YYYY-MM-DD\<close>) to arrays
  of habit ids. Every exported function parses the entries it needs, works on the parsed
  value and writes the entries it changed back. The embedding passes the store explicitly
  and returns the store a call leaves behind.

  Conventions of the embedding:
  \<^item> a JavaScript \<^verbatim>\<open>number\<close> is an \<open>int\<close> (ids, targets and streaks are whole
    numbers far below \<open>2^53\<close>);
  \<^item> a \<^verbatim>\<open>Date\<close> is the number of milliseconds since 1970-01-01T00:00Z; the value
    the wall clock returns is a parameter \<open>now\<close> of every function that reads it, and
    the readings of one exported call (\<^verbatim>\<open>getTodayKey()\<close> and \<^verbatim>\<open>new Date()\<close> in
    \<^verbatim>\<open>toggleHabitCompletion\<close> with its \<^verbatim>\<open>updateStreak\<close>, and in \<^verbatim>\<open>getHabitStats\<close>) are
    one value;
  \<^item> a day key is the number of days since 1970-01-01; \<^verbatim>\<open>toISOString().split('T')[0]\<close>
    prints the UTC day of a \<^verbatim>\<open>Date\<close> and \<^verbatim>\<open>new Date(key)\<close> reads a key back as its UTC
    midnight;
  \<^item> the host's time zone is a parameter \<open>z\<close> of every function that reads a local
    calendar field of a \<^verbatim>\<open>Date\<close> (\<^verbatim>\<open>getFullYear\<close>, \<^verbatim>\<open>getMonth\<close>, \<^verbatim>\<open>getDate\<close>) or
    sets one (\<^verbatim>\<open>setDate\<close>);
  \<^item> a storage entry is \<open>None\<close> while \<^verbatim>\<open>getItem\<close> returns \<^verbatim>\<open>null\<close>, and holds the
    parsed JSON value otherwise;
  \<^item> a \<^verbatim>\<open>while\<close> loop is a recursive function into \<open>option\<close>, where \<open>None\<close> stands
    for a loop that never leaves.
\<close>

subsection \<open>The calendar of the \<^verbatim>\<open>Date\<close> object\<close>

type_synonym instant = int
type_synonym day = int

definition ms_per_day :: int where
  "ms_per_day = 86400000"

text \<open>Day number of a proleptic Gregorian date, month counted from 1.\<close>

definition days_from_civil :: "int \<Rightarrow> int \<Rightarrow> int \<Rightarrow> day" where
  "days_from_civil y m d =
     (let y1 = (if m \<le> 2 then y - 1 else y);
          era = y1 div 400;
          yoe = y1 - era * 400;
          doy = (153 * (if m > 2 then m - 3 else m + 9) + 2) div 5 + d - 1;
          doe = yoe * 365 + yoe div 4 - yoe div 100 + doy
      in era * 146097 + doe - 719468)"

text \<open>Year, month (from 1) and day of the month of a day number.\<close>

definition civil_from_days :: "day \<Rightarrow> int \<times> int \<times> int" where
  "civil_from_days z =
     (let z1 = z + 719468;
          era = z1 div 146097;
          doe = z1 - era * 146097;
          yoe = (doe - doe div 1460 + doe div 36524 - doe div 146096) div 365;
          doy = doe - (365 * yoe + yoe div 4 - yoe div 100);
          mp = (5 * doy + 2) div 153;
          d = doy - (153 * mp + 2) div 5 + 1;
          m = (if mp < 10 then mp + 3 else mp - 9);
          y = yoe + era * 400
      in (if m \<le> 2 then y + 1 else y, m, d))"

text \<open>
  The UTC calendar fields of a \<^verbatim>\<open>Date\<close>. \<^verbatim>\<open>getUTCMonth\<close> counts months from 0;
  \<^verbatim>\<open>getUTCDay\<close> is the day of the week, 0 for Sunday (1970-01-01 was a Thursday).
\<close>

definition getUTCFullYear :: "instant \<Rightarrow> int" where
  "getUTCFullYear t = fst (civil_from_days (t div ms_per_day))"

definition getUTCMonth :: "instant \<Rightarrow> int" where
  "getUTCMonth t = fst (snd (civil_from_days (t div ms_per_day))) - 1"

definition getUTCDate :: "instant \<Rightarrow> int" where
  "getUTCDate t = snd (snd (civil_from_days (t div ms_per_day)))"

definition getUTCDay :: "instant \<Rightarrow> int" where
  "getUTCDay t = (t div ms_per_day + 4) mod 7"

text \<open>
  \<^verbatim>\<open>setUTCDate\<close> sets the day of the month and keeps the time within the day; a day out
  of the month's range runs over into the neighbouring months, so the \<^verbatim>\<open>Date\<close> moves
  by the difference of the days.
\<close>

definition setUTCDate :: "instant \<Rightarrow> int \<Rightarrow> instant" where
  "setUTCDate t dt = t + (dt - getUTCDate t) * ms_per_day"

text \<open>
  \<^verbatim>\<open>Date.UTC(year, month, date)\<close>: the UTC midnight of that date. The month counts from
  0, a year from 0 to 99 stands for 1900 + year, and a day of the month out of range runs
  over into the neighbouring months.
\<close>

definition Date_UTC :: "int \<Rightarrow> int \<Rightarrow> int \<Rightarrow> instant" where
  "Date_UTC y m d =
     (days_from_civil (if 0 \<le> y \<and> y \<le> 99 then 1900 + y else y) (m + 1) 1 + (d - 1)) * ms_per_day"

text \<open>
  The host's time zone, as the \<^verbatim>\<open>Date\<close> object uses it: the offset of local time
  from UTC in milliseconds, at an instant (\<open>offset_at\<close>) and for a local time value
  (\<open>offset_of_local\<close>). \<open>LocalTime\<close> turns an instant into its local time value and
  \<open>UTC\<close> turns a local time value back into an instant.
\<close>

record zone =
  offset_at :: "instant \<Rightarrow> int"
  offset_of_local :: "int \<Rightarrow> int"

definition LocalTime :: "zone \<Rightarrow> instant \<Rightarrow> int" where
  "LocalTime z t = t + offset_at z t"

definition UTC :: "zone \<Rightarrow> int \<Rightarrow> instant" where
  "UTC z t = t - offset_of_local z t"

text \<open>The local calendar fields of a \<^verbatim>\<open>Date\<close> are the UTC fields of its local time value.\<close>

definition getFullYear :: "zone \<Rightarrow> instant \<Rightarrow> int" where
  "getFullYear z t = getUTCFullYear (LocalTime z t)"

definition getMonth :: "zone \<Rightarrow> instant \<Rightarrow> int" where
  "getMonth z t = getUTCMonth (LocalTime z t)"

definition getDate :: "zone \<Rightarrow> instant \<Rightarrow> int" where
  "getDate z t = getUTCDate (LocalTime z t)"

text \<open>
  \<^verbatim>\<open>setDate\<close> sets the local day of the month and keeps the local time within the day:
  the local time value moves by the difference of the days and is turned back into an
  instant.
\<close>

definition setDate :: "zone \<Rightarrow> instant \<Rightarrow> int \<Rightarrow> instant" where
  "setDate z t dt = UTC z (LocalTime z t + (dt - getDate z t) * ms_per_day)"

text \<open>\<^verbatim>\<open>new Date(key)\<close> for a day key: the UTC midnight of that day.\<close>

definition new_Date :: "day \<Rightarrow> instant" where
  "new_Date key = key * ms_per_day"

text \<open>The day key of a date written year-month-day, as it stands in the storage.\<close>

definition ymd :: "int \<Rightarrow> int \<Rightarrow> int \<Rightarrow> day" where
  "ymd y m d = days_from_civil y m d"

subsection \<open>Data model\<close>

datatype frequency = Daily | Weekly | Monthly

text \<open>
  The interface \<^verbatim>\<open>Habit\<close>. The fields \<^verbatim>\<open>id\<close> and \<^verbatim>\<open>notes\<close> are \<open>habit_id\<close> and
  \<open>habit_notes\<close> here; \<^verbatim>\<open>created_at\<close>, the ISO string of an instant, is that instant;
  an optional field that is missing is \<open>None\<close>.
\<close>

record Habit =
  habit_id :: int
  name :: string
  frequency :: frequency
  target :: int
  streak :: int
  category :: string
  created_at :: instant
  reminder_time :: "string option"
  habit_notes :: "string option"

text \<open>
  The completion index is a JavaScript object: its keys in insertion order, each with its
  array of habit ids. The keys of an object are distinct; a lookup is \<open>map_of\<close>, an
  assignment to a key is \<open>AList.update\<close>, which replaces the value of a key in its place
  and appends a key that is new.
\<close>

type_synonym completions = "(day \<times> int list) list"

record store =
  habits_entry :: "Habit list option"
  completions_entry :: "completions option"

text \<open>\<^verbatim>\<open>JSON.parse(localStorage.getItem(STORAGE_KEY) || '[]')\<close>\<close>

definition load_habits :: "store \<Rightarrow> Habit list" where
  "load_habits s = (case habits_entry s of None \<Rightarrow> [] | Some hs \<Rightarrow> hs)"

text \<open>\<^verbatim>\<open>JSON.parse(localStorage.getItem(COMPLETIONS_KEY) || '{}')\<close>\<close>

definition load_completions :: "store \<Rightarrow> completions" where
  "load_completions s = (case completions_entry s of None \<Rightarrow> [] | Some c \<Rightarrow> c)"

text \<open>\<^verbatim>\<open>completions[key]?.includes(habitId)\<close>, false where the key is missing.\<close>

definition bucket_includes :: "completions \<Rightarrow> day \<Rightarrow> int \<Rightarrow> bool" where
  "bucket_includes completions key habitId =
     (case map_of completions key of None \<Rightarrow> False | Some bucket \<Rightarrow> habitId \<in> set bucket)"

text \<open>\<^verbatim>\<open>Array.prototype.findIndex\<close>: the first index that satisfies \<open>P\<close>, or -1.\<close>

fun findIndex :: "('a \<Rightarrow> bool) \<Rightarrow> 'a list \<Rightarrow> int" where
  "findIndex P [] = - 1"
| "findIndex P (x # xs) =
     (if P x then 0 else (let i = findIndex P xs in if i = - 1 then - 1 else i + 1))"

subsection \<open>Operations\<close>

definition getTodayKey :: "instant \<Rightarrow> day" where
  "getTodayKey now = now div ms_per_day"

definition initializeDatabase :: "store \<Rightarrow> store" where
  "initializeDatabase s =
     (let s1 = (if habits_entry s = None then s\<lparr>habits_entry := Some []\<rparr> else s)
      in if completions_entry s1 = None then s1\<lparr>completions_entry := Some []\<rparr> else s1)"

text \<open>
  \<^verbatim>\<open>addHabit\<close>: an argument that has a default in the source is an option here, \<open>None\<close>
  for a call that leaves it out. The result is the new id and the store.
\<close>

definition addHabit ::
  "store \<Rightarrow> instant \<Rightarrow> string \<Rightarrow> frequency option \<Rightarrow> int option \<Rightarrow> string option \<Rightarrow>
     string option \<Rightarrow> string option \<Rightarrow> int \<times> store" where
  "addHabit s now nm freq targ cat reminder nts =
     (let habits = load_habits s;
          newHabit = \<lparr>habit_id = (if habits \<noteq> [] then Max (set (map habit_id habits)) + 1 else 1),
                      name = nm,
                      frequency = (case freq of None \<Rightarrow> Daily | Some f \<Rightarrow> f),
                      target = (case targ of None \<Rightarrow> 1 | Some t \<Rightarrow> t),
                      streak = 0,
                      category = (case cat of None \<Rightarrow> ''general'' | Some c \<Rightarrow> c),
                      created_at = now,
                      reminder_time = reminder,
                      habit_notes = nts\<rparr>
      in (habit_id newHabit, s\<lparr>habits_entry := Some (habits @ [newHabit])\<rparr>))"

text \<open>
  \<^verbatim>\<open>deleteHabit\<close>: the loop over \<^verbatim>\<open>Object.keys(completions)\<close> assigns to every key its
  filtered bucket.
\<close>

definition deleteHabit :: "store \<Rightarrow> int \<Rightarrow> store" where
  "deleteHabit s i =
     (let habits = load_habits s;
          filteredHabits = filter (\<lambda>h. habit_id h \<noteq> i) habits;
          s1 = s\<lparr>habits_entry := Some filteredHabits\<rparr>;
          completions = load_completions s1
      in s1\<lparr>completions_entry :=
              Some (map (\<lambda>(date, bucket). (date, filter (\<lambda>habitId. habitId \<noteq> i) bucket))
                        completions)\<rparr>)"

subsection \<open>Streaks\<close>

text \<open>
  \<^verbatim>\<open>getWeekNumber\<close>: the UTC midnight of the date's local day is moved to the Thursday
  of its week, and the result is the number of that Thursday's week within the Thursday's
  year. \<open>d1\<close> and \<open>yearStart\<close> are UTC midnights, so their difference divided by
  86400000 is a whole number \<open>x\<close> of days, and \<^verbatim>\<open>Math.ceil((x + 1) / 7)\<close> is
  \<open>- ((- (x + 1)) div 7)\<close>.
\<close>

definition getWeekNumber :: "zone \<Rightarrow> instant \<Rightarrow> int" where
  "getWeekNumber z date =
     (let d = Date_UTC (getFullYear z date) (getMonth z date) (getDate z date);
          dayNum = (if getUTCDay d = 0 then 7 else getUTCDay d);
          d1 = setUTCDate d (getUTCDate d + 4 - dayNum);
          yearStart = Date_UTC (getUTCFullYear d1) 0 1
      in - ((- (((d1 - yearStart) div ms_per_day) + 1)) div 7))"

text \<open>
  The loop of the \<^verbatim>\<open>'daily'\<close> case: \<open>currentDate\<close> and \<open>streak'\<close> are its variables.
  The key is the UTC day of \<open>currentDate\<close>; the step sets the local day of the month.
\<close>

partial_function (option) daily_loop ::
  "zone \<Rightarrow> completions \<Rightarrow> int \<Rightarrow> instant \<Rightarrow> int \<Rightarrow> int option" where
  "daily_loop z completions habitId currentDate streak' =
     (if \<not> bucket_includes completions (getTodayKey currentDate) habitId then Some streak'
      else daily_loop z completions habitId
             (setDate z currentDate (getDate z currentDate - 1)) (streak' + 1))"

declare daily_loop.simps [code]

text \<open>
  The test of the \<^verbatim>\<open>'weekly'\<close> loop: some key of the index has the week number
  \<open>currentWeek\<close> and the habit in its bucket.
\<close>

definition week_found :: "zone \<Rightarrow> completions \<Rightarrow> int \<Rightarrow> int \<Rightarrow> bool" where
  "week_found z completions habitId currentWeek =
     list_ex (\<lambda>date. getWeekNumber z (new_Date date) = currentWeek \<and>
                      bucket_includes completions date habitId)
       (map fst completions)"

partial_function (option) weekly_loop ::
  "zone \<Rightarrow> completions \<Rightarrow> int \<Rightarrow> int \<Rightarrow> int \<Rightarrow> int option" where
  "weekly_loop z completions habitId currentWeek streak' =
     (if week_found z completions habitId currentWeek
      then weekly_loop z completions habitId (currentWeek - 1) (streak' + 1)
      else Some streak')"

declare weekly_loop.simps [code]

definition month_found :: "zone \<Rightarrow> completions \<Rightarrow> int \<Rightarrow> int \<Rightarrow> int \<Rightarrow> bool" where
  "month_found z completions habitId currentMonth currentYear =
     list_ex (\<lambda>date. getMonth z (new_Date date) = currentMonth \<and>
                      getFullYear z (new_Date date) = currentYear \<and>
                      bucket_includes completions date habitId)
       (map fst completions)"

partial_function (option) monthly_loop ::
  "zone \<Rightarrow> completions \<Rightarrow> int \<Rightarrow> int \<Rightarrow> int \<Rightarrow> int \<Rightarrow> int option" where
  "monthly_loop z completions habitId currentMonth currentYear streak' =
     (if month_found z completions habitId currentMonth currentYear
      then (if currentMonth - 1 < 0
            then monthly_loop z completions habitId 11 (currentYear - 1) (streak' + 1)
            else monthly_loop z completions habitId (currentMonth - 1) currentYear (streak' + 1))
      else Some streak')"

declare monthly_loop.simps [code]

text \<open>The \<^verbatim>\<open>switch\<close> of \<^verbatim>\<open>updateStreak\<close>, with \<open>streak\<close> starting at 0.\<close>

definition computeStreak ::
  "zone \<Rightarrow> frequency \<Rightarrow> completions \<Rightarrow> int \<Rightarrow> instant \<Rightarrow> int option" where
  "computeStreak z f completions habitId today =
     (case f of
        Daily \<Rightarrow> daily_loop z completions habitId today 0
      | Weekly \<Rightarrow> weekly_loop z completions habitId (getWeekNumber z today) 0
      | Monthly \<Rightarrow>
          monthly_loop z completions habitId (getMonth z today) (getFullYear z today) 0)"

definition updateStreak :: "zone \<Rightarrow> store \<Rightarrow> instant \<Rightarrow> int \<Rightarrow> store option" where
  "updateStreak z s now habitId =
     (let habits = load_habits s;
          completions = load_completions s
      in case find (\<lambda>h. habit_id h = habitId) habits of
           None \<Rightarrow> Some s
         | Some habit \<Rightarrow>
             (case computeStreak z (frequency habit) completions habitId now of
                None \<Rightarrow> None
              | Some n \<Rightarrow>
                  (let index = findIndex (\<lambda>h. habit_id h = habitId) habits
                   in if index \<noteq> - 1
                      then Some (s\<lparr>habits_entry :=
                                   Some (habits[nat index := (habits ! nat index)\<lparr>streak := n\<rparr>])\<rparr>)
                      else Some s)))"

text \<open>
  The first half of \<^verbatim>\<open>toggleHabitCompletion\<close>: the index after the bucket of
  \<open>todayKey\<close> has been created where it was missing and the id pushed to it or filtered
  out of it. \<open>bucket\<close> is \<^verbatim>\<open>completions[todayKey]\<close>, which exists from \<open>c1\<close> on.
\<close>

definition toggled :: "completions \<Rightarrow> day \<Rightarrow> int \<Rightarrow> bool \<Rightarrow> completions" where
  "toggled completions todayKey habitId completed =
     (let c1 = (if map_of completions todayKey = None
                then AList.update todayKey [] completions else completions);
          bucket = (case map_of c1 todayKey of None \<Rightarrow> [] | Some b \<Rightarrow> b)
      in if completed \<and> habitId \<notin> set bucket
         then AList.update todayKey (bucket @ [habitId]) c1
         else if \<not> completed
         then AList.update todayKey (filter (\<lambda>i. i \<noteq> habitId) bucket) c1
         else c1)"

definition toggleHabitCompletion ::
  "zone \<Rightarrow> store \<Rightarrow> instant \<Rightarrow> int \<Rightarrow> bool \<Rightarrow> store option" where
  "toggleHabitCompletion z s now habitId completed =
     (let completions = load_completions s;
          todayKey = getTodayKey now;
          s1 = s\<lparr>completions_entry := Some (toggled completions todayKey habitId completed)\<rparr>
      in updateStreak z s1 now habitId)"

subsection \<open>Updates and statistics\<close>

text \<open>
  The argument of \<^verbatim>\<open>updateHabit\<close>. Its declared type is
  \<^verbatim>\<open>Partial<Omit<Habit, 'id' | 'created_at'>>\<close>, which asks of an object literal that it
  has none of \<^verbatim>\<open>id\<close> and \<^verbatim>\<open>created_at\<close>; an object that is not a literal may carry
  them, and the spread copies every property the object has. So each field of a habit may
  be present (\<open>Some\<close>) or not. For the two optional fields, a present field may hold
  \<^verbatim>\<open>undefined\<close> (the inner \<open>None\<close>), which \<^verbatim>\<open>JSON.stringify\<close> then leaves out; a
  required field that is present holds a value of its type.
\<close>

record HabitUpdates =
  upd_id :: "int option"
  upd_created_at :: "instant option"
  upd_name :: "string option"
  upd_frequency :: "frequency option"
  upd_target :: "int option"
  upd_streak :: "int option"
  upd_category :: "string option"
  upd_reminder_time :: "string option option"
  upd_notes :: "string option option"

text \<open>The object spread \<^verbatim>\<open>{...habit, ...updates}\<close>.\<close>

definition merge_updates :: "Habit \<Rightarrow> HabitUpdates \<Rightarrow> Habit" where
  "merge_updates h u =
     h\<lparr>habit_id := (case upd_id u of None \<Rightarrow> habit_id h | Some v \<Rightarrow> v),
       created_at := (case upd_created_at u of None \<Rightarrow> created_at h | Some v \<Rightarrow> v),
       name := (case upd_name u of None \<Rightarrow> name h | Some v \<Rightarrow> v),
       frequency := (case upd_frequency u of None \<Rightarrow> frequency h | Some v \<Rightarrow> v),
       target := (case upd_target u of None \<Rightarrow> target h | Some v \<Rightarrow> v),
       streak := (case upd_streak u of None \<Rightarrow> streak h | Some v \<Rightarrow> v),
       category := (case upd_category u of None \<Rightarrow> category h | Some v \<Rightarrow> v),
       reminder_time := (case upd_reminder_time u of None \<Rightarrow> reminder_time h | Some v \<Rightarrow> v),
       habit_notes := (case upd_notes u of None \<Rightarrow> habit_notes h | Some v \<Rightarrow> v)\<rparr>"

definition updateHabit :: "store \<Rightarrow> int \<Rightarrow> HabitUpdates \<Rightarrow> store" where
  "updateHabit s i updates =
     (let habits = load_habits s;
          index = findIndex (\<lambda>h. habit_id h = i) habits
      in if index \<noteq> - 1
         then s\<lparr>habits_entry :=
                  Some (habits[nat index := merge_updates (habits ! nat index) updates])\<rparr>
         else s)"

text \<open>The object \<^verbatim>\<open>getHabitStats\<close> returns; its field \<^verbatim>\<open>streak\<close> is \<open>stats_streak\<close> here.\<close>

record HabitStats =
  stats_streak :: int
  completed :: int
  total_required :: int
  completion_rate :: int

text \<open>The immediately invoked function that computes \<^verbatim>\<open>isCompleted\<close>.\<close>

definition isCompleted ::
  "zone \<Rightarrow> Habit \<Rightarrow> completions \<Rightarrow> instant \<Rightarrow> int \<Rightarrow> bool" where
  "isCompleted z habit completions now habitId =
     (let today = now; todayKey = getTodayKey now
      in case frequency habit of
           Daily \<Rightarrow> bucket_includes completions todayKey habitId
         | Weekly \<Rightarrow>
             (let thisWeek = getWeekNumber z today
              in list_ex (\<lambda>date. getWeekNumber z (new_Date date) = thisWeek \<and>
                                  bucket_includes completions date habitId)
                   (map fst completions))
         | Monthly \<Rightarrow>
             (let thisMonth = getMonth z today
              in list_ex (\<lambda>date. getMonth z (new_Date date) = thisMonth \<and>
                                  bucket_includes completions date habitId)
                   (map fst completions)))"

text \<open>
  \<^verbatim>\<open>getHabitStats\<close> only reads the storage; the result is the statistics and the store
  as the call leaves it.
\<close>

definition getHabitStats ::
  "zone \<Rightarrow> store \<Rightarrow> instant \<Rightarrow> int \<Rightarrow> HabitStats \<times> store" where
  "getHabitStats z s now habitId =
     (let habits = load_habits s;
          completions = load_completions s
      in case find (\<lambda>h. habit_id h = habitId) habits of
           None \<Rightarrow>
             (\<lparr>stats_streak = 0, completed = 0, total_required = 1, completion_rate = 0\<rparr>, s)
         | Some habit \<Rightarrow>
             (let c = isCompleted z habit completions now habitId
              in (\<lparr>stats_streak = streak habit,
                   completed = (if c then 1 else 0),
                   total_required = target habit,
                   completion_rate = (if c then 100 else 0)\<rparr>, s)))"

subsection \<open>Notions used to state the properties\<close>

text \<open>The step of the \<^verbatim>\<open>'monthly'\<close> loop on the pair of its variables \<open>currentMonth\<close>, \<open>currentYear\<close>.\<close>

definition prev_month :: "int \<times> int \<Rightarrow> int \<times> int" where
  "prev_month p = (if fst p - 1 < 0 then (11, snd p - 1) else (fst p - 1, snd p))"

text \<open>
  The step of the \<^verbatim>\<open>'daily'\<close> loop, \<^verbatim>\<open>currentDate.setDate(currentDate.getDate() - 1)\<close>,
  and two properties of a time zone: the step leads to an earlier instant, and the step
  leads to the UTC day before.
\<close>

definition day_before :: "zone \<Rightarrow> instant \<Rightarrow> instant" where
  "day_before z t = setDate z t (getDate z t - 1)"

definition moves_back :: "zone \<Rightarrow> bool" where
  "moves_back z = (\<forall>t. day_before z t < t)"

definition steps_by_day :: "zone \<Rightarrow> bool" where
  "steps_by_day z = (\<forall>t. getTodayKey (day_before z t) = getTodayKey t - 1)"

text \<open>Every id in a bucket of the index is the id of a stored habit.\<close>

definition referential_integrity :: "store \<Rightarrow> bool" where
  "referential_integrity s =
     list_all (\<lambda>entry. list_all (\<lambda>i. i \<in> set (map habit_id (load_habits s))) (snd entry))
       (load_completions s)"

subsection \<open>Example data\<close>

text \<open>A host on UTC.\<close>

definition utc_zone :: zone where
  "utc_zone = \<lparr>offset_at = (\<lambda>t. 0), offset_of_local = (\<lambda>t. 0)\<rparr>"

text \<open>
  A host in the zone Europe/London in 2024: local time is UTC, and one hour ahead of it
  from 31 March 01:00 UTC (1711846800000) to 27 October 01:00 UTC (1729990800000). A
  local time value in the hour the clocks skip has the offset from before the change, one
  in the hour they repeat has the earlier of its two instants.
\<close>

definition london :: zone where
  "london =
     \<lparr>offset_at = (\<lambda>t. if 1711846800000 \<le> t \<and> t < 1729990800000 then 3600000 else 0),
      offset_of_local =
        (\<lambda>t. if 1711846800000 + 3600000 \<le> t \<and> t < 1729990800000 + 3600000 then 3600000
             else 0)\<rparr>"

text \<open>31 March 2024, 23:30 UTC: in London 1 April, 00:30.\<close>

definition late_evening :: instant where
  "late_evening = ymd 2024 3 31 * ms_per_day + 84600000"

text \<open>Twelve o'clock UTC of a day.\<close>

definition noon :: "day \<Rightarrow> instant" where
  "noon d = d * ms_per_day + 43200000"

definition exercise :: Habit where
  "exercise = \<lparr>habit_id = 1, name = ''Exercise'', frequency = Daily, target = 1, streak = 0,
                category = ''general'', created_at = 0, reminder_time = None,
                habit_notes = None\<rparr>"

definition reading :: Habit where
  "reading = \<lparr>habit_id = 2, name = ''Read'', frequency = Weekly, target = 1, streak = 0,
               category = ''general'', created_at = 0, reminder_time = None,
               habit_notes = None\<rparr>"

definition budget :: Habit where
  "budget = \<lparr>habit_id = 3, name = ''Budget'', frequency = Monthly, target = 1, streak = 0,
              category = ''general'', created_at = 0, reminder_time = None,
              habit_notes = None\<rparr>"

text \<open>A store of three habits, the first completed on the first two days of 2024.\<close>

definition two_days :: store where
  "two_days = \<lparr>habits_entry = Some [exercise, reading, budget],
                completions_entry = Some [(ymd 2024 1 1, [1]), (ymd 2024 1 2, [1])]\<rparr>"

text \<open>An update that holds the field \<^verbatim>\<open>streak\<close> only.\<close>

definition streak_five :: HabitUpdates where
  "streak_five = \<lparr>upd_id = None, upd_created_at = None, upd_name = None, upd_frequency = None, upd_target = None, upd_streak = Some 5,
                   upd_category = None, upd_reminder_time = None, upd_notes = None\<rparr>"

text \<open>An update that holds the field \<^verbatim>\<open>name\<close> only.\<close>

definition rename :: HabitUpdates where
  "rename = \<lparr>upd_id = None, upd_created_at = None, upd_name = Some ''Run'',
              upd_frequency = None, upd_target = None, upd_streak = None,
              upd_category = None, upd_reminder_time = None, upd_notes = None\<rparr>"

text \<open>An update that holds the fields \<^verbatim>\<open>id\<close> and \<^verbatim>\<open>created_at\<close> only.\<close>

definition new_identity :: HabitUpdates where
  "new_identity = \<lparr>upd_id = Some 9, upd_created_at = Some 86400000, upd_name = None,
                    upd_frequency = None, upd_target = None, upd_streak = None,
                    upd_category = None, upd_reminder_time = None, upd_notes = None\<rparr>"

text \<open>A store of three habits with an empty index.\<close>

definition three_habits :: store where
  "three_habits = \<lparr>habits_entry = Some [exercise, reading, budget], completions_entry = Some []\<rparr>"

text \<open>The storage before the first start: both entries are missing.\<close>

definition empty_storage :: store where
  "empty_storage = \<lparr>habits_entry = None, completions_entry = None\<rparr>"

text \<open>A store whose weekly habit was completed once, on Wednesday 4 January 2023.\<close>

definition last_january :: store where
  "last_january = \<lparr>habits_entry = Some [exercise, reading, budget],
                    completions_entry = Some [(ymd 2023 1 4, [2])]\<rparr>"

text \<open>A store whose monthly habit was completed once, on 15 March 2023.\<close>

definition last_march :: store where
  "last_march = \<lparr>habits_entry = Some [exercise, reading, budget],
                  completions_entry = Some [(ymd 2023 3 15, [3])]\<rparr>"

section \<open>Properties\<close>

subsection \<open>The loops\<close>

text \<open>
  A loop that counts up while a test holds and steps its variable, and whose steps
  decrease a measure, ends after finitely many steps, with the number of steps taken.
\<close>

lemma count_loop:
  fixes f :: "'x \<Rightarrow> int \<Rightarrow> int option" and m :: "'x \<Rightarrow> nat"
  assumes unfold: "\<And>x k. f x k = (if P x then f (g x) (k + 1) else Some k)"
    and decr: "\<And>x. P x \<Longrightarrow> m (g x) < m x"
  shows "\<exists>n::nat. f x k = Some (k + int n) \<and> (\<forall>j<n. P ((g ^^ j) x)) \<and> \<not> P ((g ^^ n) x)"
proof (induction "m x" arbitrary: x k rule: less_induct)
  case less
  show ?case
  proof (cases "P x")
    case False
    then have "f x k = Some (k + int 0)"
      using unfold [of x k] by simp
    with False show ?thesis
      by (intro exI [of _ 0]) simp
  next
    case True
    from less [OF decr [OF True], of "k + 1"]
    obtain n where n: "f (g x) (k + 1) = Some (k + 1 + int n)"
      "\<forall>j<n. P ((g ^^ j) (g x))" "\<not> P ((g ^^ n) (g x))"
      by blast
    have res: "f x k = Some (k + int (Suc n))"
      using unfold [of x k] True n(1) by simp
    have run: "\<forall>j<Suc n. P ((g ^^ j) x)"
    proof (intro allI impI)
      fix j assume "j < Suc n"
      show "P ((g ^^ j) x)"
      proof (cases j)
        case 0
        with True show ?thesis by simp
      next
        case (Suc j')
        with \<open>j < Suc n\<close> n(2) show ?thesis
          by (simp add: funpow_swap1)
      qed
    qed
    have stop: "\<not> P ((g ^^ Suc n) x)"
      using n(3) by (simp add: funpow_swap1)
    from res run stop show ?thesis
      by blast
  qed
qed

lemma bucket_includes_key:
  "bucket_includes c d i \<Longrightarrow> d \<in> fst ` set c"
  by (auto simp: bucket_includes_def split: option.splits dest: map_of_SomeD intro: rev_image_eqI)

subsection \<open>The step of the daily loop\<close>

lemma day_before_eq: "day_before z t = UTC z (LocalTime z t - ms_per_day)"
  by (simp add: day_before_def setDate_def)

lemma steps_by_day_moves_back: "steps_by_day z \<Longrightarrow> moves_back z"
proof -
  assume s: "steps_by_day z"
  have "day_before z t < t" for t
  proof -
    from s have "getTodayKey (day_before z t) < getTodayKey t"
      by (simp add: steps_by_day_def)
    then have "day_before z t div ms_per_day < t div ms_per_day"
      by (simp add: getTodayKey_def)
    then show ?thesis
      by (simp add: ms_per_day_def zdiv_mono1 linorder_not_le [symmetric])
  qed
  then show ?thesis
    by (simp add: moves_back_def)
qed

lemma getTodayKey_prev: "getTodayKey (t - ms_per_day) = getTodayKey t - 1"
  by (simp add: getTodayKey_def ms_per_day_def)

lemma fixed_offset_steps_by_day:
  assumes "\<And>t. offset_at z t = c" and "\<And>t. offset_of_local z t = c"
  shows "steps_by_day z"
proof -
  have "day_before z t = t - ms_per_day" for t
    by (simp add: day_before_eq UTC_def LocalTime_def assms)
  then show ?thesis
    by (simp add: steps_by_day_def getTodayKey_prev)
qed

lemma utc_zone_steps_by_day: "steps_by_day utc_zone"
  by (rule fixed_offset_steps_by_day [of _ 0]) (simp_all add: utc_zone_def)

lemma london_moves_back: "moves_back london"
  by (simp add: moves_back_def day_before_eq UTC_def LocalTime_def london_def ms_per_day_def)

lemma day_before_funpow_key:
  "steps_by_day z \<Longrightarrow> getTodayKey ((day_before z ^^ j) t) = getTodayKey t - int j"
  by (induction j) (simp_all add: steps_by_day_def)

lemma daily_loop_stop:
  "\<not> bucket_includes c (getTodayKey t) i \<Longrightarrow> daily_loop z c i t k = Some k"
  by (subst daily_loop.simps) simp

lemma daily_loop_step:
  "bucket_includes c (getTodayKey t) i \<Longrightarrow>
     daily_loop z c i t k = daily_loop z c i (day_before z t) (k + 1)"
  by (subst daily_loop.simps) (simp add: day_before_def)

text \<open>
  Where the step leads to an earlier instant the daily loop returns: an instant whose key
  the index has is not before the midnight of the least key, and the distance to that
  midnight shrinks with every step.
\<close>

lemma daily_loop_returns:
  assumes "moves_back z"
  shows "\<exists>n::nat. daily_loop z c i t k = Some (k + int n) \<and>
     (\<forall>j<n. bucket_includes c (getTodayKey ((day_before z ^^ j) t)) i) \<and>
     \<not> bucket_includes c (getTodayKey ((day_before z ^^ n) t)) i"
proof -
  let ?P = "\<lambda>t. bucket_includes c (getTodayKey t) i"
  let ?g = "day_before z"
  let ?m = "\<lambda>t. nat (t - Min (fst ` set c) * ms_per_day + 1)"
  have unfold: "\<And>t k. daily_loop z c i t k = (if ?P t then daily_loop z c i (?g t) (k + 1) else Some k)"
    by (simp add: daily_loop_stop daily_loop_step)
  have decr: "?m (?g t) < ?m t" if "?P t" for t
  proof -
    from that have "getTodayKey t \<in> fst ` set c"
      by (rule bucket_includes_key)
    then have "Min (fst ` set c) \<le> t div ms_per_day"
      by (simp add: getTodayKey_def)
    then have "Min (fst ` set c) * ms_per_day \<le> t div ms_per_day * ms_per_day"
      by (simp add: ms_per_day_def)
    also have "\<dots> \<le> t"
      by (simp add: ms_per_day_def)
    finally have "0 < t - Min (fst ` set c) * ms_per_day + 1"
      by simp
    moreover from assms have "?g t < t"
      by (simp add: moves_back_def)
    ultimately show ?thesis
      by simp
  qed
  from count_loop [of "daily_loop z c i" ?P ?g ?m t k, OF unfold decr]
  show ?thesis .
qed

lemma daily_loop_result:
  assumes "steps_by_day z"
  shows "\<exists>n::nat. daily_loop z c i t k = Some (k + int n) \<and>
     (\<forall>j<n. bucket_includes c (getTodayKey t - int j) i) \<and>
     \<not> bucket_includes c (getTodayKey t - int n) i"
  using daily_loop_returns [OF steps_by_day_moves_back [OF assms], of c i t k]
  by (simp add: day_before_funpow_key [OF assms])

subsection \<open>The weekly and monthly loops, and the stored streak\<close>

lemma weekly_loop_result:
  "\<exists>n::nat. weekly_loop z c i w k = Some (k + int n) \<and>
     (\<forall>j<n. week_found z c i (w - int j)) \<and> \<not> week_found z c i (w - int n)"
proof -
  let ?P = "\<lambda>w. week_found z c i w"
  let ?g = "\<lambda>w::int. w - 1"
  let ?m = "\<lambda>w. card {key \<in> fst ` set c. getWeekNumber z (new_Date key) \<le> w}"
  have unfold: "\<And>w k. weekly_loop z c i w k = (if ?P w then weekly_loop z c i (?g w) (k + 1) else Some k)"
    by (subst weekly_loop.simps) simp
  have decr: "?m (?g w) < ?m w" if "?P w" for w
  proof -
    from that obtain key where "key \<in> fst ` set c" "getWeekNumber z (new_Date key) = w"
      by (auto simp: week_found_def list_ex_iff)
    then have "{key \<in> fst ` set c. getWeekNumber z (new_Date key) \<le> ?g w} \<subset> {key \<in> fst ` set c. getWeekNumber z (new_Date key) \<le> w}"
      by auto
    then show ?thesis
      by (intro psubset_card_mono) auto
  qed
  have pow: "(?g ^^ j) w = w - int j" for j
    by (induction j) simp_all
  from count_loop [of "weekly_loop z c i" ?P ?g ?m w k, OF unfold decr]
  show ?thesis
    by (simp add: pow)
qed

lemma monthly_loop_result:
  "\<exists>n::nat. monthly_loop z c i m y k = Some (k + int n) \<and>
     (\<forall>j<n. month_found z c i (fst ((prev_month ^^ j) (m, y))) (snd ((prev_month ^^ j) (m, y)))) \<and>
     \<not> month_found z c i (fst ((prev_month ^^ n) (m, y))) (snd ((prev_month ^^ n) (m, y)))"
proof -
  let ?f = "\<lambda>p. monthly_loop z c i (fst p) (snd p)"
  let ?P = "\<lambda>p. month_found z c i (fst p) (snd p)"
  let ?K = "\<lambda>p. {key \<in> fst ` set c. getFullYear z (new_Date key) < snd p \<or> (getFullYear z (new_Date key) = snd p \<and> getMonth z (new_Date key) \<le> fst p)}"
  let ?m = "\<lambda>p. card (?K p)"
  have unfold: "\<And>p k. ?f p k = (if ?P p then ?f (prev_month p) (k + 1) else Some k)"
    by (subst monthly_loop.simps) (simp add: prev_month_def)
  have decr: "?m (prev_month p) < ?m p" if "?P p" for p
  proof -
    from that obtain key where key: "key \<in> fst ` set c" "getMonth z (new_Date key) = fst p" "getFullYear z (new_Date key) = snd p"
      by (auto simp: month_found_def list_ex_iff)
    then have "key \<in> ?K p" "key \<notin> ?K (prev_month p)"
      by (auto simp: prev_month_def)
    moreover have "?K (prev_month p) \<subseteq> ?K p"
      by (auto simp: prev_month_def split: if_splits)
    ultimately have "?K (prev_month p) \<subset> ?K p"
      by blast
    then show ?thesis
      by (intro psubset_card_mono) auto
  qed
  from count_loop [of ?f ?P prev_month ?m "(m, y)" k, OF unfold decr]
  show ?thesis
    by simp
qed

lemma computeStreak_returns:
  assumes "moves_back z"
  shows "\<exists>n::nat. computeStreak z f c i t = Some (int n)"
proof (cases f)
  case Daily
  with daily_loop_returns [OF assms, of c i t 0] show ?thesis
    by (auto simp: computeStreak_def)
next
  case Weekly
  with weekly_loop_result [of z c i "getWeekNumber z t" 0] show ?thesis
    by (auto simp: computeStreak_def)
next
  case Monthly
  with monthly_loop_result [of z c i "getMonth z t" "getFullYear z t" 0]
  show ?thesis
    by (auto simp: computeStreak_def)
qed




lemma findIndex_None: "find P xs = None \<Longrightarrow> findIndex P xs = - 1"
  by (induction xs) (auto simp: Let_def)

lemma findIndex_Some:
  "find P xs = Some x \<Longrightarrow>
     0 \<le> findIndex P xs \<and> nat (findIndex P xs) < length xs \<and> xs ! nat (findIndex P xs) = x"
proof (induction xs)
  case Nil
  then show ?case by simp
next
  case (Cons a xs)
  show ?case
  proof (cases "P a")
    case True
    with Cons.prems show ?thesis by simp
  next
    case False
    with Cons.prems have "find P xs = Some x" by simp
    from Cons.IH [OF this] False show ?thesis
      by (auto simp: Let_def nat_add_distrib)
  qed
qed

lemma find_update:
  "find P xs = Some x \<Longrightarrow> P y \<Longrightarrow> find P (xs[nat (findIndex P xs) := y]) = Some y"
proof (induction xs)
  case Nil
  then show ?case by simp
next
  case (Cons a xs)
  show ?case
  proof (cases "P a")
    case True
    with Cons.prems show ?thesis by simp
  next
    case False
    with Cons.prems have f: "find P xs = Some x" by simp
    from findIndex_Some [OF f] have "0 \<le> findIndex P xs" by simp
    then have "nat (findIndex P xs + 1) = Suc (nat (findIndex P xs))" by simp
    with Cons.IH [OF f Cons.prems(2)] False findIndex_Some [OF f] show ?thesis
      by (auto simp: Let_def)
  qed
qed

lemma load_after_completions [simp]:
  "load_habits (s\<lparr>completions_entry := c\<rparr>) = load_habits s"
  "load_completions (s\<lparr>completions_entry := Some c'\<rparr>) = c'"
  by (simp_all add: load_habits_def load_completions_def)

lemma load_after_habits [simp]:
  "load_habits (s\<lparr>habits_entry := Some hs\<rparr>) = hs"
  "load_completions (s\<lparr>habits_entry := e\<rparr>) = load_completions s"
  by (simp_all add: load_habits_def load_completions_def)

lemma updateStreak_missing:
  "find (\<lambda>h. habit_id h = i) (load_habits s) = None \<Longrightarrow> updateStreak z s now i = Some s"
  by (simp add: updateStreak_def)

lemma updateStreak_found:
  assumes "find (\<lambda>h. habit_id h = i) (load_habits s) = Some h"
    and "computeStreak z (frequency h) (load_completions s) i now = Some n"
  shows "updateStreak z s now i =
     Some (s\<lparr>habits_entry :=
              Some ((load_habits s)[nat (findIndex (\<lambda>h. habit_id h = i) (load_habits s)) :=
                      h\<lparr>streak := n\<rparr>])\<rparr>)"
proof -
  from findIndex_Some [OF assms(1)]
  have "findIndex (\<lambda>h. habit_id h = i) (load_habits s) \<noteq> - 1"
    and "load_habits s ! nat (findIndex (\<lambda>h. habit_id h = i) (load_habits s)) = h"
    by auto
  with assms show ?thesis
    by (simp add: updateStreak_def Let_def)
qed

lemma updateStreak_stored:
  assumes "find (\<lambda>h. habit_id h = i) (load_habits s) = Some h"
    and "computeStreak z (frequency h) (load_completions s) i now = Some n"
  shows "\<exists>s'. updateStreak z s now i = Some s' \<and>
           load_completions s' = load_completions s \<and>
           find (\<lambda>h. habit_id h = i) (load_habits s') = Some (h\<lparr>streak := n\<rparr>)"
proof -
  from assms(1) have "habit_id h = i"
    by (auto simp: find_Some_iff)
  then have "habit_id (h\<lparr>streak := n\<rparr>) = i"
    by simp
  from find_update [of "\<lambda>h. habit_id h = i", OF assms(1) this] updateStreak_found [OF assms]
  show ?thesis
    by simp
qed

lemma daily_three:
  assumes "steps_by_day z"
    and "bucket_includes c (getTodayKey t) i"
    and "bucket_includes c (getTodayKey t - 1) i"
    and "bucket_includes c (getTodayKey t - 2) i"
    and "\<not> bucket_includes c (getTodayKey t - 3) i"
  shows "computeStreak z Daily c i t = Some 3"
proof -
  from daily_loop_result [OF assms(1), of c i t 0] obtain n :: nat
    where n: "daily_loop z c i t 0 = Some (int n)"
      "\<forall>j<n. bucket_includes c (getTodayKey t - int j) i"
      "\<not> bucket_includes c (getTodayKey t - int n) i"
    by auto
  have "n = 0 \<or> n = 1 \<or> n = 2 \<or> n = 3 \<or> 3 < n"
    by arith
  moreover have "n \<noteq> 0"
    using n(3) assms(2) by (intro notI) simp
  moreover have "n \<noteq> 1"
    using n(3) assms(3) by (intro notI) simp
  moreover have "n \<noteq> 2"
    using n(3) assms(4) by (intro notI) simp
  moreover have "\<not> 3 < n"
  proof
    assume "3 < n"
    with n(2) have "bucket_includes c (getTodayKey t - int 3) i"
      by blast
    with assms(5) show False
      by simp
  qed
  ultimately have "n = 3"
    by blast
  with n(1) show ?thesis
    by (simp add: computeStreak_def)
qed

lemma daily_zero:
  "\<not> bucket_includes c (getTodayKey t) i \<Longrightarrow> computeStreak z Daily c i t = Some 0"
  by (simp add: computeStreak_def daily_loop.simps)

subsection \<open>Evaluation of the example data\<close>

lemma calendar_examples:
  "civil_from_days 0 = (1970, 1, 1)" "getUTCDay 0 = 4"
  "civil_from_days (ymd 2024 2 29) = (2024, 2, 29)" "civil_from_days (ymd 2024 2 29 + 1) = (2024, 3, 1)"
  "civil_from_days (ymd 1900 3 1 - 1) = (1900, 2, 28)" "civil_from_days (- 1) = (1969, 12, 31)"
  "getWeekNumber utc_zone (new_Date (ymd 2021 1 1)) = 53"
  "getWeekNumber utc_zone (new_Date (ymd 2026 1 1)) = 1"
  "getWeekNumber utc_zone (new_Date (ymd 2024 12 30)) = 1"
  "getWeekNumber utc_zone (new_Date (ymd 2023 1 1)) = 52"
  by code_simp+

lemma getTodayKey_noon: "getTodayKey (noon d) = d"
  by (simp add: getTodayKey_def noon_def ms_per_day_def)

lemma ymd_2024_01:
  "ymd 2024 1 1 = 19723" "ymd 2024 1 2 = 19724" "ymd 2024 1 3 = 19725"
  by (simp_all add: ymd_def days_from_civil_def)

lemma ymd_2024_03:
  "ymd 2024 3 29 = 19811" "ymd 2024 3 30 = 19812" "ymd 2024 3 31 = 19813"
  by (simp_all add: ymd_def days_from_civil_def)

text \<open>
  The daily loop in London on the evening of 31 March 2024: the first step goes from
  23:30 UTC (local 00:30 on 1 April, summer time) to 00:30 UTC of the same UTC day (local
  00:30 on 31 March, before the clocks change); the steps after it go back by a day.
\<close>

lemma late_evening_value: "late_evening = 1711927800000"
  by (simp add: late_evening_def ymd_2024_03 ms_per_day_def)

lemma london_steps:
  "day_before london 1711927800000 = 1711845000000"
  "day_before london 1711845000000 = 1711758600000"
  "day_before london 1711758600000 = 1711672200000"
  "day_before london 1711672200000 = 1711585800000"
  by (simp_all add: day_before_eq UTC_def LocalTime_def london_def ms_per_day_def)

lemma london_keys:
  "getTodayKey 1711927800000 = 19813" "getTodayKey 1711845000000 = 19813"
  "getTodayKey 1711758600000 = 19812" "getTodayKey 1711672200000 = 19811"
  "getTodayKey 1711585800000 = 19810"
  by (simp_all add: getTodayKey_def ms_per_day_def)

subsection \<open>Daily streaks\<close>

text \<open>
  On a host whose zone makes every step of the daily loop lead to the UTC day before (a
  zone with a fixed offset, UTC among them), the streak computed for the frequency
  \<^verbatim>\<open>'daily'\<close> is the number \<open>n\<close> of consecutive days, counted backwards from the day
  \<open>T\<close> of the instant, whose bucket includes the habit's id, and a toggle stores that
  number for the index as the toggle left it.
\<close>

lemma daily_streak_steps_by_day:
  assumes "steps_by_day z"
    and "find (\<lambda>h. habit_id h = i) (load_habits s) = Some h"
    and "frequency h = Daily"
  shows "(\<exists>n. computeStreak z Daily c i now = Some (int n) \<and>
            (\<forall>j<n. bucket_includes c (getTodayKey now - int j) i) \<and>
            \<not> bucket_includes c (getTodayKey now - int n) i) \<and>
         (\<exists>s' n. toggleHabitCompletion z s now i b = Some s' \<and>
            load_completions s' = toggled (load_completions s) (getTodayKey now) i b \<and>
            computeStreak z Daily (load_completions s') i now = Some (int n) \<and>
            find (\<lambda>h. habit_id h = i) (load_habits s') = Some (h\<lparr>streak := int n\<rparr>) \<and>
            (\<forall>j<n. bucket_includes (load_completions s') (getTodayKey now - int j) i) \<and>
            \<not> bucket_includes (load_completions s') (getTodayKey now - int n) i) \<and>
         (bucket_includes c3 (getTodayKey now) i \<and> bucket_includes c3 (getTodayKey now - 1) i \<and>
          bucket_includes c3 (getTodayKey now - 2) i \<and> \<not> bucket_includes c3 (getTodayKey now - 3) i
            \<longrightarrow> computeStreak z Daily c3 i now = Some 3) \<and>
         (\<not> bucket_includes c0 (getTodayKey now) i \<longrightarrow> computeStreak z Daily c0 i now = Some 0)"
proof -
  let ?c = "toggled (load_completions s) (getTodayKey now) i b"
  let ?s1 = "s\<lparr>completions_entry := Some ?c\<rparr>"
  from daily_loop_result [OF assms(1), of c i now 0]
  have general: "\<exists>n. computeStreak z Daily c i now = Some (int n) \<and>
            (\<forall>j<n. bucket_includes c (getTodayKey now - int j) i) \<and>
            \<not> bucket_includes c (getTodayKey now - int n) i"
    by (simp add: computeStreak_def)
  from daily_loop_result [OF assms(1), of ?c i now 0] obtain n :: nat
    where n: "daily_loop z ?c i now 0 = Some (int n)"
      "\<forall>j<n. bucket_includes ?c (getTodayKey now - int j) i"
      "\<not> bucket_includes ?c (getTodayKey now - int n) i"
    by auto
  from n(1) have cs: "computeStreak z Daily ?c i now = Some (int n)"
    by (simp add: computeStreak_def)
  have "find (\<lambda>h. habit_id h = i) (load_habits ?s1) = Some h"
    using assms(2) by simp
  moreover have "computeStreak z (frequency h) (load_completions ?s1) i now = Some (int n)"
    using cs assms(3) by simp
  ultimately obtain s' where s': "updateStreak z ?s1 now i = Some s'"
    "load_completions s' = load_completions ?s1"
    "find (\<lambda>h. habit_id h = i) (load_habits s') = Some (h\<lparr>streak := int n\<rparr>)"
    using updateStreak_stored by blast
  from s'(1) have "toggleHabitCompletion z s now i b = Some s'"
    by (simp add: toggleHabitCompletion_def Let_def)
  with s'(2,3) n(2,3) cs have "\<exists>s' n. toggleHabitCompletion z s now i b = Some s' \<and>
            load_completions s' = toggled (load_completions s) (getTodayKey now) i b \<and>
            computeStreak z Daily (load_completions s') i now = Some (int n) \<and>
            find (\<lambda>h. habit_id h = i) (load_habits s') = Some (h\<lparr>streak := int n\<rparr>) \<and>
            (\<forall>j<n. bucket_includes (load_completions s') (getTodayKey now - int j) i) \<and>
            \<not> bucket_includes (load_completions s') (getTodayKey now - int n) i"
    by (intro exI [of _ s'] exI [of _ n]) simp
  with general show ?thesis
    using daily_three [OF assms(1), of c3 now i] daily_zero [of c0 now i z] by blast
qed

text \<open>
  Claim C1 at a failing input. The loop steps back with the local \<^verbatim>\<open>setDate\<close> and reads
  its key from the UTC \<^verbatim>\<open>toISOString\<close>. In London at 23:30 UTC on 31 March 2024 the
  first step stays within the UTC day 31 March, so that day is counted twice: a toggle to
  completed on an empty index stores the streak 2 for one completed day, and an index with
  the id on 29, 30 and 31 March but not on 28 March gives 4.
\<close>

theorem daily_streak_counts_day_twice:
  "getTodayKey late_evening = ymd 2024 3 31 \<and>
   toggleHabitCompletion london three_habits late_evening 1 True =
     Some \<lparr>habits_entry = Some [exercise\<lparr>streak := 2\<rparr>, reading, budget],
           completions_entry = Some [(ymd 2024 3 31, [1])]\<rparr> \<and>
   \<not> bucket_includes [(ymd 2024 3 31, [1])] (ymd 2024 3 31 - 1) 1 \<and>
   computeStreak london Daily
     [(ymd 2024 3 29, [1]), (ymd 2024 3 30, [1]), (ymd 2024 3 31, [1])] 1 late_evening = Some 4 \<and>
   \<not> bucket_includes [(ymd 2024 3 29, [1]), (ymd 2024 3 30, [1]), (ymd 2024 3 31, [1])]
       (ymd 2024 3 31 - 3) 1"
proof -
  let ?c = "[(19813, [1])] :: completions"
  have "daily_loop london ?c 1 1711927800000 0 = daily_loop london ?c 1 1711845000000 1"
    by (subst daily_loop_step) (simp_all add: london_steps london_keys bucket_includes_def)
  also have "\<dots> = daily_loop london ?c 1 1711758600000 2"
    by (subst daily_loop_step) (simp_all add: london_steps london_keys bucket_includes_def)
  also have "\<dots> = Some 2"
    by (rule daily_loop_stop) (simp add: london_keys bucket_includes_def)
  finally have two: "computeStreak london Daily ?c 1 late_evening = Some 2"
    by (simp add: computeStreak_def late_evening_value)
  have t: "toggled [] (getTodayKey late_evening) 1 True = ?c"
    by (simp add: toggled_def late_evening_value london_keys)
  have toggle: "toggleHabitCompletion london three_habits late_evening 1 True =
     Some \<lparr>habits_entry = Some [exercise\<lparr>streak := 2\<rparr>, reading, budget],
           completions_entry = Some [(ymd 2024 3 31, [1])]\<rparr>"
    using two t
    by (simp add: toggleHabitCompletion_def updateStreak_def three_habits_def load_habits_def
        load_completions_def exercise_def ymd_2024_03)
  let ?d = "[(19811, [1]), (19812, [1]), (19813, [1])] :: completions"
  have "daily_loop london ?d 1 1711927800000 0 = daily_loop london ?d 1 1711845000000 1"
    by (subst daily_loop_step) (simp_all add: london_steps london_keys bucket_includes_def)
  also have "\<dots> = daily_loop london ?d 1 1711758600000 2"
    by (subst daily_loop_step) (simp_all add: london_steps london_keys bucket_includes_def)
  also have "\<dots> = daily_loop london ?d 1 1711672200000 3"
    by (subst daily_loop_step) (simp_all add: london_steps london_keys bucket_includes_def)
  also have "\<dots> = daily_loop london ?d 1 1711585800000 4"
    by (subst daily_loop_step) (simp_all add: london_steps london_keys bucket_includes_def)
  also have "\<dots> = Some 4"
    by (rule daily_loop_stop) (simp add: london_keys bucket_includes_def)
  finally have four: "computeStreak london Daily ?d 1 late_evening = Some 4"
    by (simp add: computeStreak_def late_evening_value)
  from toggle four show ?thesis
    by (simp add: ymd_2024_03 late_evening_value london_keys bucket_includes_def)
qed

subsection \<open>Termination of the recomputation\<close>

lemma bounded_shift_moves_back:
  assumes "\<And>t u. offset_at z t - offset_of_local z u < ms_per_day"
  shows "moves_back z"
proof -
  have "day_before z t < t" for t
    using assms [of t "LocalTime z t - ms_per_day"]
    by (simp add: day_before_eq UTC_def LocalTime_def)
  then show ?thesis
    by (simp add: moves_back_def)
qed




subsection \<open>Toggling, deleting and reading\<close>

lemma find_None_ids: "find (\<lambda>h. habit_id h = i) hs = None \<longleftrightarrow> i \<notin> set (map habit_id hs)"
  by (auto simp: find_None_iff)

lemma update_missing_key: "map_of al k = None \<Longrightarrow> AList.update k v al = al @ [(k, v)]"
  by (induction al) (auto split: if_splits)

lemma toggled_true_lookup:
  "map_of (toggled c T i True) T =
     Some (case map_of c T of None \<Rightarrow> [i] | Some b \<Rightarrow> if i \<in> set b then b else b @ [i])"
  by (auto simp: toggled_def Let_def update_conv' split: option.splits)

lemma toggled_true_twice: "toggled (toggled c T i True) T i True = toggled c T i True"
proof -
  have "\<exists>b. map_of (toggled c T i True) T = Some b \<and> i \<in> set b"
    by (auto simp: toggled_true_lookup split: option.splits)
  then show ?thesis
    by (subst (1) toggled_def) (auto simp: Let_def)
qed

lemma toggled_false_absent:
  assumes "\<not> bucket_includes c T i"
  shows "toggled c T i False = (if map_of c T = None then c @ [(T, [])] else c)"
proof (cases "map_of c T")
  case None
  then have "toggled c T i False = AList.update T [] c"
    by (simp add: toggled_def Let_def update_conv')
  with None show ?thesis
    by (simp add: update_missing_key)
next
  case (Some b)
  with assms have "i \<notin> set b"
    by (simp add: bucket_includes_def)
  then have "filter (\<lambda>j. j \<noteq> i) b = b"
    by (induction b) auto
  with Some show ?thesis
    by (simp add: toggled_def Let_def update_triv)
qed

lemma bucket_includes_append_empty:
  "bucket_includes (c @ [(T, [])]) d j = bucket_includes c d j"
  by (auto simp: bucket_includes_def map_add_def split: option.splits)

lemma updateStreak_frame:
  assumes "moves_back z"
  shows "\<exists>s'. updateStreak z s now i = Some s' \<and> completions_entry s' = completions_entry s"
proof (cases "find (\<lambda>h. habit_id h = i) (load_habits s)")
  case None
  then show ?thesis
    by (simp add: updateStreak_missing)
next
  case (Some h)
  from computeStreak_returns [OF assms, of "frequency h" "load_completions s" i now]
  obtain n :: nat where "computeStreak z (frequency h) (load_completions s) i now = Some (int n)"
    by blast
  from updateStreak_found [OF Some this] show ?thesis
    by simp
qed

lemma toggleHabitCompletion_index:
  assumes "moves_back z"
  shows "\<exists>s'. toggleHabitCompletion z s now i b = Some s' \<and>
         completions_entry s' = Some (toggled (load_completions s) (getTodayKey now) i b)"
  using updateStreak_frame
    [OF assms, of "s\<lparr>completions_entry := Some (toggled (load_completions s) (getTodayKey now) i b)\<rparr>" now i]
  by (simp add: toggleHabitCompletion_def Let_def)

text \<open>
  Claim C10. For an id that no stored habit has, \<^verbatim>\<open>getHabitStats\<close> returns streak 0,
  completed 0, total_required 1 and completion_rate 0, and leaves the store as it found it.
\<close>

theorem getHabitStats_missing:
  "i \<notin> set (map habit_id (load_habits s)) \<Longrightarrow>
     getHabitStats z s now i =
       (\<lparr>stats_streak = 0, completed = 0, total_required = 1, completion_rate = 0\<rparr>, s)"
  using find_None_ids [of i "load_habits s"] by (simp add: getHabitStats_def)

theorem getHabitStats_missing_witness:
  "7 \<notin> set (map habit_id (load_habits two_days)) \<and>
   getHabitStats utc_zone two_days (noon (ymd 2024 1 3)) 7 =
     (\<lparr>stats_streak = 0, completed = 0, total_required = 1, completion_rate = 0\<rparr>, two_days)"
proof -
  have h: "7 \<notin> set (map habit_id (load_habits two_days))"
    by (simp add: two_days_def load_habits_def exercise_def reading_def budget_def)
  from getHabitStats_missing [OF h] h show ?thesis
    by simp
qed

text \<open>
  Claim C6. After \<^verbatim>\<open>deleteHabit\<close> no bucket of the index includes the id and no stored
  habit has it; the other habits stay as they were, so that the collection is unchanged
  where no habit had the id. The function has no failing branch.
\<close>

theorem deleteHabit_cascade:
  "(\<forall>d. \<not> bucket_includes (load_completions (deleteHabit s i)) d i) \<and>
   (\<forall>entry \<in> set (load_completions (deleteHabit s i)). i \<notin> set (snd entry)) \<and>
   i \<notin> set (map habit_id (load_habits (deleteHabit s i))) \<and>
   load_habits (deleteHabit s i) = filter (\<lambda>h. habit_id h \<noteq> i) (load_habits s) \<and>
   (i \<notin> set (map habit_id (load_habits s)) \<longrightarrow> load_habits (deleteHabit s i) = load_habits s)"
proof -
  let ?c = "map (\<lambda>(date, bucket). (date, filter (\<lambda>habitId. habitId \<noteq> i) bucket)) (load_completions s)"
  have c: "load_completions (deleteHabit s i) = ?c"
    by (simp add: deleteHabit_def Let_def)
  have h: "load_habits (deleteHabit s i) = filter (\<lambda>h. habit_id h \<noteq> i) (load_habits s)"
    by (simp add: deleteHabit_def Let_def)
  have entries: "\<forall>entry \<in> set ?c. i \<notin> set (snd entry)"
    by auto
  have "\<not> bucket_includes ?c d i" for d
  proof
    assume "bucket_includes ?c d i"
    then obtain b where "map_of ?c d = Some b" "i \<in> set b"
      by (auto simp: bucket_includes_def split: option.splits)
    then have "(d, b) \<in> set ?c" "i \<in> set b"
      by (auto dest: map_of_SomeD)
    with entries show False
      by fastforce
  qed
  moreover have "i \<notin> set (map habit_id (filter (\<lambda>h. habit_id h \<noteq> i) (load_habits s)))"
    by auto
  moreover have "filter (\<lambda>h. habit_id h \<noteq> i) (load_habits s) = load_habits s"
    if "i \<notin> set (map habit_id (load_habits s))"
    using that by (induction "load_habits s") (auto simp: filter_id_conv)
  ultimately show ?thesis
    using entries unfolding c h by blast
qed

theorem deleteHabit_cascade_witness:
  "(\<forall>d. \<not> bucket_includes (load_completions (deleteHabit two_days 1)) d 1) \<and>
   list_all (\<lambda>entry. 1 \<notin> set (snd entry)) (load_completions (deleteHabit two_days 1)) \<and>
   load_completions (deleteHabit two_days 1) = [(ymd 2024 1 1, []), (ymd 2024 1 2, [])] \<and>
   1 \<notin> set (map habit_id (load_habits (deleteHabit two_days 1))) \<and>
   load_habits (deleteHabit two_days 1) = [reading, budget] \<and>
   7 \<notin> set (map habit_id (load_habits two_days)) \<and>
   load_habits (deleteHabit two_days 7) = load_habits two_days"
proof -
  have absent: "7 \<notin> set (map habit_id (load_habits two_days))"
    by (simp add: two_days_def load_habits_def exercise_def reading_def budget_def)
  have c: "load_completions (deleteHabit two_days 1) = [(ymd 2024 1 1, []), (ymd 2024 1 2, [])]"
    by (simp add: deleteHabit_def two_days_def load_completions_def load_habits_def)
  have f: "filter (\<lambda>h. habit_id h \<noteq> 1) (load_habits two_days) = [reading, budget]"
    by (simp add: two_days_def load_habits_def exercise_def reading_def budget_def)
  note d1 = deleteHabit_cascade [of two_days 1]
  note d7 = deleteHabit_cascade [of two_days 7]
  have "load_habits (deleteHabit two_days 1) = filter (\<lambda>h. habit_id h \<noteq> 1) (load_habits two_days)"
    using d1 by blast
  also note f
  finally have l: "load_habits (deleteHabit two_days 1) = [reading, budget]" .
  from d1 have "list_all (\<lambda>entry. 1 \<notin> set (snd entry)) (load_completions (deleteHabit two_days 1))"
    unfolding list_all_iff by blast
  with d1 d7 absent c l show ?thesis
    by blast
qed

subsection \<open>Idempotence of the toggle\<close>

text \<open>
  Where the toggle returns (on a host whose zone lets the step of the daily loop lead to
  an earlier instant) the index it leaves is the index \<open>toggled\<close> gives.
\<close>

lemma toggle_idempotence_zone:
  assumes "moves_back z"
  shows "(getTodayKey t2 = getTodayKey t1 \<longrightarrow>
            (\<exists>s1 s2. toggleHabitCompletion z s t1 i True = Some s1 \<and>
               toggleHabitCompletion z s1 t2 i True = Some s2 \<and>
               completions_entry s2 = completions_entry s1)) \<and>
         (\<not> bucket_includes (load_completions s) (getTodayKey t) i \<longrightarrow>
            (\<exists>s'. toggleHabitCompletion z s t i False = Some s' \<and>
               load_completions s' =
                 (if map_of (load_completions s) (getTodayKey t) = None
                  then load_completions s @ [(getTodayKey t, [])] else load_completions s) \<and>
               (\<forall>d j. bucket_includes (load_completions s') d j =
                       bucket_includes (load_completions s) d j)))"
proof (intro conjI impI)
  assume same: "getTodayKey t2 = getTodayKey t1"
  from toggleHabitCompletion_index [OF assms, of s t1 i True] obtain s1
    where s1: "toggleHabitCompletion z s t1 i True = Some s1"
      "completions_entry s1 = Some (toggled (load_completions s) (getTodayKey t1) i True)"
    by blast
  from toggleHabitCompletion_index [OF assms, of s1 t2 i True] obtain s2
    where s2: "toggleHabitCompletion z s1 t2 i True = Some s2"
      "completions_entry s2 = Some (toggled (load_completions s1) (getTodayKey t2) i True)"
    by blast
  from s1(2) have "load_completions s1 = toggled (load_completions s) (getTodayKey t1) i True"
    by (simp add: load_completions_def)
  with s2(2) same s1(2) have "completions_entry s2 = completions_entry s1"
    by (simp add: toggled_true_twice)
  with s1(1) s2(1)
  show "\<exists>s1 s2. toggleHabitCompletion z s t1 i True = Some s1 \<and>
         toggleHabitCompletion z s1 t2 i True = Some s2 \<and>
         completions_entry s2 = completions_entry s1"
    by blast
next
  assume absent: "\<not> bucket_includes (load_completions s) (getTodayKey t) i"
  from toggleHabitCompletion_index [OF assms, of s t i False] obtain s'
    where s': "toggleHabitCompletion z s t i False = Some s'"
      "completions_entry s' = Some (toggled (load_completions s) (getTodayKey t) i False)"
    by blast
  from s'(2) have "load_completions s' = toggled (load_completions s) (getTodayKey t) i False"
    by (simp add: load_completions_def)
  with toggled_false_absent [OF absent]
  have c: "load_completions s' =
           (if map_of (load_completions s) (getTodayKey t) = None
            then load_completions s @ [(getTodayKey t, [])] else load_completions s)"
    by simp
  then have "\<forall>d j. bucket_includes (load_completions s') d j =
                 bucket_includes (load_completions s) d j"
    by (simp add: bucket_includes_append_empty)
  with s'(1) c
  show "\<exists>s'. toggleHabitCompletion z s t i False = Some s' \<and>
         load_completions s' =
           (if map_of (load_completions s) (getTodayKey t) = None
            then load_completions s @ [(getTodayKey t, [])] else load_completions s) \<and>
         (\<forall>d j. bucket_includes (load_completions s') d j =
                 bucket_includes (load_completions s) d j)"
    by blast
qed

text \<open>
  Claim C7, as the code has it. Two calls with \<^verbatim>\<open>true\<close> on the same day leave the index
  the first call left. A call with \<^verbatim>\<open>false\<close> for an id that today's bucket does not
  include leaves, for every day, the ids its bucket includes as they were; it leaves the
  stored index unchanged where today's bucket exists, and appends an empty bucket for today
  where it does not. This holds on a host on UTC, and on every host whose zone lets the
  step of the daily loop lead to an earlier instant.
\<close>

theorem toggle_idempotence:
  "(getTodayKey t2 = getTodayKey t1 \<longrightarrow>
      (\<exists>s1 s2. toggleHabitCompletion utc_zone s t1 i True = Some s1 \<and>
         toggleHabitCompletion utc_zone s1 t2 i True = Some s2 \<and>
         completions_entry s2 = completions_entry s1)) \<and>
   (\<not> bucket_includes (load_completions s) (getTodayKey t) i \<longrightarrow>
      (\<exists>s'. toggleHabitCompletion utc_zone s t i False = Some s' \<and>
         load_completions s' =
           (if map_of (load_completions s) (getTodayKey t) = None
            then load_completions s @ [(getTodayKey t, [])] else load_completions s) \<and>
         (\<forall>d j. bucket_includes (load_completions s') d j =
                 bucket_includes (load_completions s) d j))) \<and>
   (moves_back z \<longrightarrow>
      (getTodayKey t2 = getTodayKey t1 \<longrightarrow>
         (\<exists>s1 s2. toggleHabitCompletion z s t1 i True = Some s1 \<and>
            toggleHabitCompletion z s1 t2 i True = Some s2 \<and>
            completions_entry s2 = completions_entry s1)) \<and>
      (\<not> bucket_includes (load_completions s) (getTodayKey t) i \<longrightarrow>
         (\<exists>s'. toggleHabitCompletion z s t i False = Some s' \<and>
            load_completions s' =
              (if map_of (load_completions s) (getTodayKey t) = None
               then load_completions s @ [(getTodayKey t, [])] else load_completions s) \<and>
            (\<forall>d j. bucket_includes (load_completions s') d j =
                    bucket_includes (load_completions s) d j))))"
  using toggle_idempotence_zone [OF steps_by_day_moves_back [OF utc_zone_steps_by_day], of t2 t1 s i t]
    toggle_idempotence_zone [of z t2 t1 s i t]
  by blast

theorem toggle_idempotence_witness:
  "moves_back london \<and>
   getTodayKey (noon (ymd 2024 1 3) + 1000) = getTodayKey (noon (ymd 2024 1 3)) \<and>
   (\<exists>s1 s2. toggleHabitCompletion london two_days (noon (ymd 2024 1 3)) 1 True = Some s1 \<and>
      toggleHabitCompletion london s1 (noon (ymd 2024 1 3) + 1000) 1 True = Some s2 \<and>
      completions_entry s2 = completions_entry s1) \<and>
   (\<exists>s1 s2. toggleHabitCompletion utc_zone two_days (noon (ymd 2024 1 3)) 1 True = Some s1 \<and>
      toggleHabitCompletion utc_zone s1 (noon (ymd 2024 1 3) + 1000) 1 True = Some s2 \<and>
      completions_entry s2 = completions_entry s1) \<and>
   \<not> bucket_includes (load_completions two_days) (getTodayKey (noon (ymd 2024 1 2))) 2 \<and>
   (\<exists>s'. toggleHabitCompletion london two_days (noon (ymd 2024 1 2)) 2 False = Some s' \<and>
      load_completions s' = load_completions two_days \<and>
      (\<forall>d j. bucket_includes (load_completions s') d j =
              bucket_includes (load_completions two_days) d j)) \<and>
   (\<exists>s'. toggleHabitCompletion utc_zone two_days (noon (ymd 2024 1 2)) 2 False = Some s' \<and>
      load_completions s' = load_completions two_days \<and>
      (\<forall>d j. bucket_includes (load_completions s') d j =
              bucket_includes (load_completions two_days) d j))"
proof -
  have same: "getTodayKey (noon (ymd 2024 1 3) + 1000) = getTodayKey (noon (ymd 2024 1 3))"
    by (simp add: getTodayKey_def noon_def ms_per_day_def)
  have absent: "\<not> bucket_includes (load_completions two_days) (getTodayKey (noon (ymd 2024 1 2))) 2"
    by (simp add: bucket_includes_def two_days_def load_completions_def)
  have bucket: "map_of (load_completions two_days) (getTodayKey (noon (ymd 2024 1 2))) \<noteq> None"
    by (simp add: getTodayKey_noon ymd_2024_01 two_days_def load_completions_def)
  note twice = toggle_idempotence
    [of "noon (ymd 2024 1 3) + 1000" "noon (ymd 2024 1 3)" two_days 1 _ london]
  note off = toggle_idempotence [of 0 0 two_days 2 "noon (ymd 2024 1 2)" london]
  from twice london_moves_back same
  have a: "\<exists>s1 s2. toggleHabitCompletion london two_days (noon (ymd 2024 1 3)) 1 True = Some s1 \<and>
      toggleHabitCompletion london s1 (noon (ymd 2024 1 3) + 1000) 1 True = Some s2 \<and>
      completions_entry s2 = completions_entry s1"
    by blast
  from twice same
  have b: "\<exists>s1 s2. toggleHabitCompletion utc_zone two_days (noon (ymd 2024 1 3)) 1 True = Some s1 \<and>
      toggleHabitCompletion utc_zone s1 (noon (ymd 2024 1 3) + 1000) 1 True = Some s2 \<and>
      completions_entry s2 = completions_entry s1"
    by blast
  from off london_moves_back absent bucket
  have c: "\<exists>s'. toggleHabitCompletion london two_days (noon (ymd 2024 1 2)) 2 False = Some s' \<and>
      load_completions s' = load_completions two_days \<and>
      (\<forall>d j. bucket_includes (load_completions s') d j =
              bucket_includes (load_completions two_days) d j)"
    by auto
  from off absent bucket
  have d: "\<exists>s'. toggleHabitCompletion utc_zone two_days (noon (ymd 2024 1 2)) 2 False = Some s' \<and>
      load_completions s' = load_completions two_days \<and>
      (\<forall>d j. bucket_includes (load_completions s') d j =
              bucket_includes (load_completions two_days) d j)"
    by auto
  from london_moves_back same absent a b c d show ?thesis
    by (intro conjI)
qed

theorem toggle_false_creates_bucket:
  "\<not> bucket_includes (load_completions two_days) (getTodayKey (noon (ymd 2024 1 3))) 1 \<and>
   toggleHabitCompletion utc_zone two_days (noon (ymd 2024 1 3)) 1 False =
     Some (two_days\<lparr>completions_entry :=
             Some [(ymd 2024 1 1, [1]), (ymd 2024 1 2, [1]), (ymd 2024 1 3, [])]\<rparr>) \<and>
   load_completions (two_days\<lparr>completions_entry :=
             Some [(ymd 2024 1 1, [1]), (ymd 2024 1 2, [1]), (ymd 2024 1 3, [])]\<rparr>)
     \<noteq> load_completions two_days"
  by (simp add: getTodayKey_noon ymd_2024_01 bucket_includes_def two_days_def
      load_completions_def load_habits_def toggleHabitCompletion_def toggled_def
      updateStreak_def computeStreak_def exercise_def reading_def budget_def daily_loop_stop
      Let_def)

subsection \<open>The frame of an update\<close>

lemma updateHabit_missing:
  "find (\<lambda>h. habit_id h = i) (load_habits s) = None \<Longrightarrow> updateHabit s i u = s"
  by (simp add: updateHabit_def findIndex_None)

lemma updateHabit_found:
  assumes "find (\<lambda>h. habit_id h = i) (load_habits s) = Some h"
  shows "updateHabit s i u =
     s\<lparr>habits_entry :=
         Some ((load_habits s)[nat (findIndex (\<lambda>h. habit_id h = i) (load_habits s)) :=
                 merge_updates h u])\<rparr>"
proof -
  from findIndex_Some [OF assms]
  have "findIndex (\<lambda>h. habit_id h = i) (load_habits s) \<noteq> - 1"
    and "load_habits s ! nat (findIndex (\<lambda>h. habit_id h = i) (load_habits s)) = h"
    by auto
  then show ?thesis
    by (simp add: updateHabit_def Let_def)
qed

lemma merge_updates_keeps:
  "upd_id u = None \<Longrightarrow> habit_id (merge_updates h u) = habit_id h"
  "upd_created_at u = None \<Longrightarrow> created_at (merge_updates h u) = created_at h"
  "upd_streak u = None \<Longrightarrow> streak (merge_updates h u) = streak h"
  by (simp_all add: merge_updates_def)

lemma map_update_same: "k < length xs \<Longrightarrow> f y = f (xs ! k) \<Longrightarrow> map f (xs[k := y]) = map f xs"
  by (simp add: map_update list_update_same_conv)

text \<open>
  Claim C9, as the code has it. \<^verbatim>\<open>updateHabit\<close> puts, in the place of the first habit
  with the given id, that habit merged with every field its argument carries. An argument
  that carries no id leaves the id of every habit as it was, and likewise for the creation
  time and the streak; one that carries such a field overwrites it. The call leaves the
  index untouched, changes no habit whose id is not the given one, and leaves the whole
  store unchanged where no habit has the id.
\<close>

theorem updateHabit_frame:
  "completions_entry (updateHabit s i u) = completions_entry s \<and>
   length (load_habits (updateHabit s i u)) = length (load_habits s) \<and>
   (\<forall>j<length (load_habits s). habit_id (load_habits s ! j) \<noteq> i \<longrightarrow>
      load_habits (updateHabit s i u) ! j = load_habits s ! j) \<and>
   (\<forall>h. find (\<lambda>h. habit_id h = i) (load_habits s) = Some h \<longrightarrow>
      load_habits (updateHabit s i u) =
        (load_habits s)[nat (findIndex (\<lambda>h. habit_id h = i) (load_habits s)) :=
           merge_updates h u]) \<and>
   (upd_id u = None \<longrightarrow>
      map habit_id (load_habits (updateHabit s i u)) = map habit_id (load_habits s)) \<and>
   (upd_created_at u = None \<longrightarrow>
      map created_at (load_habits (updateHabit s i u)) = map created_at (load_habits s)) \<and>
   (upd_streak u = None \<longrightarrow>
      map streak (load_habits (updateHabit s i u)) = map streak (load_habits s)) \<and>
   (i \<notin> set (map habit_id (load_habits s)) \<longrightarrow> updateHabit s i u = s)"
proof (cases "find (\<lambda>h. habit_id h = i) (load_habits s)")
  case None
  then have "updateHabit s i u = s"
    by (rule updateHabit_missing)
  with None show ?thesis
    by simp
next
  case (Some h)
  let ?k = "nat (findIndex (\<lambda>h. habit_id h = i) (load_habits s))"
  from findIndex_Some [OF Some]
  have k: "?k < length (load_habits s)" "load_habits s ! ?k = h"
    by auto
  from Some have hi: "habit_id h = i"
    by (auto simp: find_Some_iff)
  have l: "load_habits (updateHabit s i u) = (load_habits s)[?k := merge_updates h u]"
    by (simp add: updateHabit_found [OF Some])
  have "completions_entry (updateHabit s i u) = completions_entry s"
    by (simp add: updateHabit_found [OF Some])
  moreover have "length (load_habits (updateHabit s i u)) = length (load_habits s)"
    unfolding l by simp
  moreover have "load_habits (updateHabit s i u) ! j = load_habits s ! j"
    if "habit_id (load_habits s ! j) \<noteq> i" for j
  proof -
    from that k(2) hi have "j \<noteq> ?k"
      by auto
    then show ?thesis
      unfolding l by simp
  qed
  moreover have "map habit_id (load_habits (updateHabit s i u)) = map habit_id (load_habits s)"
    if "upd_id u = None"
    unfolding l using k that by (intro map_update_same) (simp_all add: merge_updates_keeps)
  moreover have "map created_at (load_habits (updateHabit s i u)) = map created_at (load_habits s)"
    if "upd_created_at u = None"
    unfolding l using k that by (intro map_update_same) (simp_all add: merge_updates_keeps)
  moreover have "map streak (load_habits (updateHabit s i u)) = map streak (load_habits s)"
    if "upd_streak u = None"
    unfolding l using k that by (intro map_update_same) (simp_all add: merge_updates_keeps)
  moreover have "i \<in> set (map habit_id (load_habits s))"
    using Some find_None_ids [of i "load_habits s"] by auto
  ultimately show ?thesis
    using Some l by auto
qed

theorem updateHabit_frame_witness:
  "find (\<lambda>h. habit_id h = 1) (load_habits two_days) = Some exercise \<and>
   upd_id rename = None \<and> upd_created_at rename = None \<and> upd_streak rename = None \<and>
   completions_entry (updateHabit two_days 1 rename) = completions_entry two_days \<and>
   load_habits (updateHabit two_days 1 rename) =
     (load_habits two_days)[nat (findIndex (\<lambda>h. habit_id h = 1) (load_habits two_days)) :=
        merge_updates exercise rename] \<and>
   map habit_id (load_habits (updateHabit two_days 1 rename)) = map habit_id (load_habits two_days) \<and>
   map created_at (load_habits (updateHabit two_days 1 rename)) = map created_at (load_habits two_days) \<and>
   map streak (load_habits (updateHabit two_days 1 rename)) = map streak (load_habits two_days) \<and>
   1 < length (load_habits two_days) \<and> habit_id (load_habits two_days ! 1) \<noteq> 1 \<and>
   load_habits (updateHabit two_days 1 rename) ! 1 = load_habits two_days ! 1 \<and>
   7 \<notin> set (map habit_id (load_habits two_days)) \<and>
   updateHabit two_days 7 rename = two_days"
proof -
  have h: "find (\<lambda>h. habit_id h = 1) (load_habits two_days) = Some exercise"
    by (simp add: two_days_def load_habits_def exercise_def)
  have u: "upd_id rename = None" "upd_created_at rename = None" "upd_streak rename = None"
    by (simp_all add: rename_def)
  have j: "1 < length (load_habits two_days)" "habit_id (load_habits two_days ! 1) \<noteq> 1"
    by (simp_all add: two_days_def load_habits_def reading_def)
  have absent: "7 \<notin> set (map habit_id (load_habits two_days))"
    by (simp add: two_days_def load_habits_def exercise_def reading_def budget_def)
  from updateHabit_frame [of two_days 1 rename] updateHabit_frame [of two_days 7 rename]
    h u j absent
  show ?thesis
    by blast
qed

theorem updateHabit_changes_streak:
  "streak (load_habits two_days ! 0) = 0 \<and>
   streak (load_habits (updateHabit two_days 1 streak_five) ! 0) = 5 \<and>
   habit_id (load_habits two_days ! 0) = 1 \<and> created_at (load_habits two_days ! 0) = 0 \<and>
   habit_id (load_habits (updateHabit two_days 1 new_identity) ! 0) = 9 \<and>
   created_at (load_habits (updateHabit two_days 1 new_identity) ! 0) = 86400000"
  by (simp add: two_days_def load_habits_def exercise_def updateHabit_def merge_updates_def
      streak_five_def new_identity_def)

subsection \<open>The scenario of the first habit\<close>

text \<open>
  On a host whose zone makes every step of the daily loop lead to the UTC day before, the
  scenario runs as the specification has it: the streak is 1 after the toggle to completed
  and 0 after the toggle back on the same day.
\<close>

lemma exercise_scenario_steps_by_day:
  assumes "getTodayKey t2 = getTodayKey t1"
    and "getTodayKey t3 = getTodayKey t1"
    and "getTodayKey t4 = getTodayKey t1"
    and "steps_by_day z"
  shows "\<exists>s1 s2 s3.
     addHabit (initializeDatabase empty_storage) t0 ''Exercise'' (Some Daily) (Some 1)
       None None None = (1, s1) \<and>
     map habit_id (load_habits s1) = [1] \<and> map streak (load_habits s1) = [0] \<and>
     toggleHabitCompletion z s1 t1 1 True = Some s2 \<and>
     fst (getHabitStats z s2 t2 1) =
       \<lparr>stats_streak = 1, completed = 1, total_required = 1, completion_rate = 100\<rparr> \<and>
     toggleHabitCompletion z s2 t3 1 False = Some s3 \<and>
     fst (getHabitStats z s3 t4 1) =
       \<lparr>stats_streak = 0, completed = 0, total_required = 1, completion_rate = 0\<rparr>"
proof -
  let ?h = "\<lparr>habit_id = 1, name = ''Exercise'', frequency = Daily, target = 1, streak = 0,
             category = ''general'', created_at = t0, reminder_time = None,
             habit_notes = None\<rparr>"
  let ?D = "getTodayKey t1"
  let ?s1 = "\<lparr>habits_entry = Some [?h], completions_entry = Some []\<rparr>"
  let ?s2 = "\<lparr>habits_entry = Some [?h\<lparr>streak := 1\<rparr>], completions_entry = Some [(?D, [1])]\<rparr>"
  let ?s3 = "\<lparr>habits_entry = Some [?h\<lparr>streak := 0\<rparr>], completions_entry = Some [(?D, [])]\<rparr>"
  have add: "addHabit (initializeDatabase empty_storage) t0 ''Exercise'' (Some Daily) (Some 1)
       None None None = (1, ?s1)"
    by (simp add: addHabit_def initializeDatabase_def empty_storage_def load_habits_def)
  have s1: "map habit_id (load_habits ?s1) = [1]" "map streak (load_habits ?s1) = [0]"
    by (simp_all add: load_habits_def)
  have on: "toggled [] ?D 1 True = [(?D, [1])]"
    by (simp add: toggled_def)
  from assms(4) have prev: "getTodayKey (day_before z t1) = ?D - 1"
    by (simp add: steps_by_day_def)
  have "daily_loop z [(?D, [1])] 1 t1 0 = daily_loop z [(?D, [1])] 1 (day_before z t1) 1"
    by (subst daily_loop_step) (simp_all add: bucket_includes_def)
  also have "\<dots> = Some 1"
    by (rule daily_loop_stop) (simp add: bucket_includes_def prev)
  finally have streak1: "computeStreak z Daily [(?D, [1])] 1 t1 = Some 1"
    by (simp add: computeStreak_def)
  have t1: "toggleHabitCompletion z ?s1 t1 1 True = Some ?s2"
    using on streak1
    by (simp add: toggleHabitCompletion_def updateStreak_def load_completions_def load_habits_def)
  have g2: "fst (getHabitStats z ?s2 t2 1) =
       \<lparr>stats_streak = 1, completed = 1, total_required = 1, completion_rate = 100\<rparr>"
    using assms(1)
    by (simp add: getHabitStats_def isCompleted_def load_completions_def load_habits_def
        bucket_includes_def)
  have off: "toggled [(?D, [1])] (getTodayKey t3) 1 False = [(?D, [])]"
    using assms(2) by (simp add: toggled_def)
  have streak0: "computeStreak z Daily [(?D, [])] 1 t3 = Some 0"
    by (simp add: computeStreak_def daily_loop_stop bucket_includes_def assms(2))
  have t3: "toggleHabitCompletion z ?s2 t3 1 False = Some ?s3"
    using off streak0
    by (simp add: toggleHabitCompletion_def updateStreak_def load_completions_def load_habits_def)
  have g4: "fst (getHabitStats z ?s3 t4 1) =
       \<lparr>stats_streak = 0, completed = 0, total_required = 1, completion_rate = 0\<rparr>"
    using assms(3)
    by (simp add: getHabitStats_def isCompleted_def load_completions_def load_habits_def
        bucket_includes_def)
  show ?thesis
    by (rule exI [of _ ?s1], rule exI [of _ ?s2], rule exI [of _ ?s3])
      (intro conjI add s1 t1 g2 t3 g4)
qed

text \<open>
  Claim C5 at a failing input. In London at 23:30 UTC on 31 March 2024, after the habit
  Exercise has been added to the initialized empty storage with the id 1 and toggled to
  completed, \<^verbatim>\<open>getHabitStats\<close> returns the streak 2: the daily loop counts the UTC day
  31 March twice.
\<close>

theorem exercise_scenario_counts_day_twice:
  "addHabit (initializeDatabase empty_storage) (noon (ymd 2024 3 31)) ''Exercise'' (Some Daily)
     (Some 1) None None None =
     (1, \<lparr>habits_entry = Some [exercise\<lparr>created_at := noon (ymd 2024 3 31)\<rparr>],
          completions_entry = Some []\<rparr>) \<and>
   toggleHabitCompletion london
     \<lparr>habits_entry = Some [exercise\<lparr>created_at := noon (ymd 2024 3 31)\<rparr>],
      completions_entry = Some []\<rparr> late_evening 1 True =
     Some \<lparr>habits_entry = Some [exercise\<lparr>created_at := noon (ymd 2024 3 31), streak := 2\<rparr>],
           completions_entry = Some [(ymd 2024 3 31, [1])]\<rparr> \<and>
   fst (getHabitStats london
          \<lparr>habits_entry = Some [exercise\<lparr>created_at := noon (ymd 2024 3 31), streak := 2\<rparr>],
           completions_entry = Some [(ymd 2024 3 31, [1])]\<rparr> late_evening 1) =
     \<lparr>stats_streak = 2, completed = 1, total_required = 1, completion_rate = 100\<rparr>"
proof -
  let ?c = "[(19813, [1])] :: completions"
  have "daily_loop london ?c 1 1711927800000 0 = daily_loop london ?c 1 1711845000000 1"
    by (subst daily_loop_step) (simp_all add: london_steps london_keys bucket_includes_def)
  also have "\<dots> = daily_loop london ?c 1 1711758600000 2"
    by (subst daily_loop_step) (simp_all add: london_steps london_keys bucket_includes_def)
  also have "\<dots> = Some 2"
    by (rule daily_loop_stop) (simp add: london_keys bucket_includes_def)
  finally have two: "computeStreak london Daily ?c 1 late_evening = Some 2"
    by (simp add: computeStreak_def late_evening_value)
  have t: "toggled [] (getTodayKey late_evening) 1 True = ?c"
    by (simp add: toggled_def late_evening_value london_keys)
  have add: "addHabit (initializeDatabase empty_storage) (noon (ymd 2024 3 31)) ''Exercise''
     (Some Daily) (Some 1) None None None =
     (1, \<lparr>habits_entry = Some [exercise\<lparr>created_at := noon (ymd 2024 3 31)\<rparr>],
          completions_entry = Some []\<rparr>)"
    by (simp add: addHabit_def initializeDatabase_def empty_storage_def load_habits_def
        exercise_def)
  have toggle: "toggleHabitCompletion london
     \<lparr>habits_entry = Some [exercise\<lparr>created_at := noon (ymd 2024 3 31)\<rparr>],
      completions_entry = Some []\<rparr> late_evening 1 True =
     Some \<lparr>habits_entry = Some [exercise\<lparr>created_at := noon (ymd 2024 3 31), streak := 2\<rparr>],
           completions_entry = Some [(ymd 2024 3 31, [1])]\<rparr>"
    using two t
    by (simp add: toggleHabitCompletion_def updateStreak_def load_habits_def
        load_completions_def exercise_def ymd_2024_03)
  have stats: "fst (getHabitStats london
          \<lparr>habits_entry = Some [exercise\<lparr>created_at := noon (ymd 2024 3 31), streak := 2\<rparr>],
           completions_entry = Some [(ymd 2024 3 31, [1])]\<rparr> late_evening 1) =
     \<lparr>stats_streak = 2, completed = 1, total_required = 1, completion_rate = 100\<rparr>"
    by (simp add: getHabitStats_def isCompleted_def load_habits_def load_completions_def
        exercise_def bucket_includes_def late_evening_value london_keys ymd_2024_03)
  from add toggle stats show ?thesis
    by (intro conjI)
qed

subsection \<open>Weeks and months of different years\<close>

lemma ymd_examples:
  "ymd 2023 1 4 = 19361" "ymd 2023 3 15 = 19431" "ymd 2023 12 27 = 19718" "ymd 2024 3 10 = 19792"
  by (simp_all add: ymd_def days_from_civil_def)

lemma week_examples:
  "getWeekNumber utc_zone (new_Date 19361) = 1" "getWeekNumber utc_zone (new_Date 19718) = 52"
  "getWeekNumber utc_zone (new_Date 19725) = 1" "getWeekNumber utc_zone (noon 19725) = 1"
  by code_simp+

lemma month_examples:
  "getMonth utc_zone (new_Date 19431) = 2" "getFullYear utc_zone (new_Date 19431) = 2023"
  "getMonth utc_zone (noon 19792) = 2" "getFullYear utc_zone (noon 19792) = 2024"
  "getFullYear utc_zone (new_Date 19361) = 2023" "getFullYear utc_zone (new_Date 19718) = 2023"
  "getFullYear utc_zone (noon 19725) = 2024"
  by code_simp+

lemma weekly_loop_stop: "\<not> week_found z c i w \<Longrightarrow> weekly_loop z c i w k = Some k"
  by (subst weekly_loop.simps) simp

lemma weekly_loop_step:
  "week_found z c i w \<Longrightarrow> weekly_loop z c i w k = weekly_loop z c i (w - 1) (k + 1)"
  by (subst weekly_loop.simps) simp

text \<open>
  What \<^verbatim>\<open>getHabitStats\<close> returns for a stored habit: the rate is a hundred times the
  completed flag, and for the frequency \<^verbatim>\<open>'daily'\<close> the flag tells whether today's bucket
  includes the id.
\<close>

lemma getHabitStats_found:
  "find (\<lambda>h. habit_id h = i) (load_habits s) = Some h \<Longrightarrow>
     getHabitStats z s now i =
       (\<lparr>stats_streak = streak h,
         completed = (if isCompleted z h (load_completions s) now i then 1 else 0),
         total_required = target h,
         completion_rate = 100 * (if isCompleted z h (load_completions s) now i then 1 else 0)\<rparr>,
        s)"
  by (simp add: getHabitStats_def Let_def)

lemma isCompleted_daily:
  "frequency h = Daily \<Longrightarrow> isCompleted z h c now i = bucket_includes c (getTodayKey now) i"
  by (simp add: isCompleted_def)

text \<open>
  Claim C3 at a failing input, on a host on UTC. The weekly habit 2 has one completion, in the first ISO week
  of 2023. A toggle to not completed on 3 January 2024, in the first ISO week of 2024,
  stores the streak 1: the week of the key is compared by its number alone. With
  completions in the last week of 2023 and the first week of 2024 the streak computed on
  3 January 2024 is 1 as well: the week before week 1 is looked for under the number 0.
\<close>

theorem weekly_streak_ignores_year:
  "toggleHabitCompletion utc_zone last_january (noon (ymd 2024 1 3)) 2 False =
     Some \<lparr>habits_entry = Some [exercise, reading\<lparr>streak := 1\<rparr>, budget],
           completions_entry = Some [(ymd 2023 1 4, [2]), (ymd 2024 1 3, [])]\<rparr> \<and>
   getWeekNumber utc_zone (new_Date (ymd 2023 1 4)) = 1 \<and>
   getFullYear utc_zone (new_Date (ymd 2023 1 4)) = 2023 \<and>
   getWeekNumber utc_zone (noon (ymd 2024 1 3)) = 1 \<and>
   getFullYear utc_zone (noon (ymd 2024 1 3)) = 2024 \<and>
   computeStreak utc_zone Weekly [(ymd 2023 12 27, [2]), (ymd 2024 1 3, [2])] 2
     (noon (ymd 2024 1 3)) = Some 1 \<and>
   getWeekNumber utc_zone (new_Date (ymd 2023 12 27)) = 52 \<and>
   getFullYear utc_zone (new_Date (ymd 2023 12 27)) = 2023"
proof -
  let ?c = "[(19361, [2]), (19725, [])] :: completions"
  have found: "week_found utc_zone ?c 2 1"
    by (simp add: week_examples week_found_def bucket_includes_def)
  have gone: "\<not> week_found utc_zone ?c 2 0"
    by (simp add: week_examples week_found_def bucket_includes_def)
  have "weekly_loop utc_zone ?c 2 1 0 = weekly_loop utc_zone ?c 2 (1 - 1) (0 + 1)"
    using found by (rule weekly_loop_step)
  also have "\<dots> = Some 1"
    using gone by (simp add: weekly_loop_stop)
  finally have one: "computeStreak utc_zone Weekly ?c 2 (noon 19725) = Some 1"
    by (simp add: computeStreak_def week_examples)
  have t: "toggled [(19361, [2])] 19725 2 False = ?c"
    by (simp add: toggled_def)
  have toggle: "toggleHabitCompletion utc_zone last_january (noon (ymd 2024 1 3)) 2 False =
     Some \<lparr>habits_entry = Some [exercise, reading\<lparr>streak := 1\<rparr>, budget],
           completions_entry = Some [(ymd 2023 1 4, [2]), (ymd 2024 1 3, [])]\<rparr>"
    using one t
    by (simp add: toggleHabitCompletion_def updateStreak_def last_january_def load_habits_def
        load_completions_def exercise_def reading_def budget_def getTodayKey_noon ymd_examples
        ymd_2024_01)
  let ?e = "[(19718, [2]), (19725, [2])] :: completions"
  have found': "week_found utc_zone ?e 2 1"
    by (simp add: week_examples week_found_def bucket_includes_def)
  have gone': "\<not> week_found utc_zone ?e 2 0"
    by (simp add: week_examples week_found_def bucket_includes_def)
  have "weekly_loop utc_zone ?e 2 1 0 = weekly_loop utc_zone ?e 2 (1 - 1) (0 + 1)"
    using found' by (rule weekly_loop_step)
  also have "\<dots> = Some 1"
    using gone' by (simp add: weekly_loop_stop)
  finally have "computeStreak utc_zone Weekly ?e 2 (noon 19725) = Some 1"
    by (simp add: computeStreak_def week_examples)
  with toggle show ?thesis
    by (simp add: ymd_examples ymd_2024_01 week_examples month_examples)
qed

text \<open>
  Claim C4 at a failing input, on a host on UTC. The monthly habit 3 has one completion, on 15 March 2023.
  On 10 March 2024 \<^verbatim>\<open>getHabitStats\<close> reports it completed: the month of the key is compared
  without its year. The weekly habit 2, completed in the first ISO week of 2023 only, is
  reported completed on 3 January 2024 in the same way.
\<close>

theorem stats_ignore_year:
  "getHabitStats utc_zone last_march (noon (ymd 2024 3 10)) 3 =
     (\<lparr>stats_streak = 0, completed = 1, total_required = 1, completion_rate = 100\<rparr>, last_march) \<and>
   load_completions last_march = [(ymd 2023 3 15, [3])] \<and>
   getFullYear utc_zone (new_Date (ymd 2023 3 15)) = 2023 \<and>
   getFullYear utc_zone (noon (ymd 2024 3 10)) = 2024 \<and>
   getHabitStats utc_zone last_january (noon (ymd 2024 1 3)) 2 =
     (\<lparr>stats_streak = 0, completed = 1, total_required = 1, completion_rate = 100\<rparr>, last_january) \<and>
   load_completions last_january = [(ymd 2023 1 4, [2])] \<and>
   getFullYear utc_zone (new_Date (ymd 2023 1 4)) = 2023 \<and>
   getFullYear utc_zone (noon (ymd 2024 1 3)) = 2024"
  by (simp add: ymd_examples ymd_2024_01 week_examples month_examples getTodayKey_noon
      getHabitStats_def isCompleted_def last_march_def last_january_def load_habits_def
      load_completions_def exercise_def reading_def budget_def bucket_includes_def)

subsection \<open>Ids in the index without a habit\<close>

text \<open>
  Every operation but the toggle keeps the ids of the index among the ids of the habits
  (an update, where its argument carries no id), and so does a toggle for the id of a
  stored habit. The keys of the index stay distinct.
\<close>

lemma integrity_iff:
  "referential_integrity s \<longleftrightarrow>
     (\<forall>entry \<in> set (load_completions s). set (snd entry) \<subseteq> set (map habit_id (load_habits s)))"
  by (auto simp: referential_integrity_def list_all_iff)

lemma load_initializeDatabase [simp]:
  "load_habits (initializeDatabase s) = load_habits s"
  "load_completions (initializeDatabase s) = load_completions s"
  by (simp_all add: initializeDatabase_def load_habits_def load_completions_def Let_def
      split: option.splits)

lemma integrity_initializeDatabase:
  "referential_integrity s \<Longrightarrow> referential_integrity (initializeDatabase s)"
  by (simp add: integrity_iff)

lemma integrity_addHabit:
  "referential_integrity s \<Longrightarrow> referential_integrity (snd (addHabit s now nm f t c r n))"
  by (auto simp: integrity_iff addHabit_def Let_def)

lemma integrity_deleteHabit:
  "referential_integrity s \<Longrightarrow> referential_integrity (deleteHabit s i)"
  by (fastforce simp: integrity_iff deleteHabit_def Let_def)

lemma integrity_updateHabit:
  assumes "referential_integrity s" and "upd_id u = None"
  shows "referential_integrity (updateHabit s i u)"
proof (cases "find (\<lambda>h. habit_id h = i) (load_habits s)")
  case None
  with assms(1) show ?thesis
    by (simp add: updateHabit_missing)
next
  case (Some h)
  from findIndex_Some [OF Some]
  have "map habit_id ((load_habits s)[nat (findIndex (\<lambda>h. habit_id h = i) (load_habits s)) :=
          merge_updates h u]) = map habit_id (load_habits s)"
    by (intro map_update_same) (simp_all add: merge_updates_keeps assms(2))
  with assms(1) show ?thesis
    by (simp add: integrity_iff updateHabit_found [OF Some])
qed

lemma integrity_getHabitStats: "snd (getHabitStats z s now i) = s"
  by (simp add: getHabitStats_def Let_def split: option.splits)

lemma update_entries:
  "entry \<in> set (AList.update k v al) \<Longrightarrow> entry = (k, v) \<or> entry \<in> set al"
  by (induction al) (auto split: if_splits)

lemma toggled_entries:
  assumes "entry \<in> set (toggled c T i b)"
  shows "\<exists>old. (old \<in> set c \<or> old = (T, [])) \<and> set (snd entry) \<subseteq> insert i (set (snd old))"
proof -
  define c1 where "c1 = (if map_of c T = None then AList.update T [] c else c)"
  define bucket where "bucket = (case map_of c1 T of None \<Rightarrow> [] | Some b \<Rightarrow> b)"
  have t: "toggled c T i b =
     (if b \<and> i \<notin> set bucket then AList.update T (bucket @ [i]) c1
      else if \<not> b then AList.update T (filter (\<lambda>j. j \<noteq> i) bucket) c1 else c1)"
    unfolding toggled_def Let_def c1_def bucket_def by (rule refl)
  have c1: "e \<in> set c \<or> e = (T, [])" if "e \<in> set c1" for e
    using that by (auto simp: c1_def dest: update_entries split: if_splits)
  have bucket: "(T, bucket) \<in> set c1 \<or> bucket = []"
    by (auto simp: bucket_def dest: map_of_SomeD split: option.splits)
  have old: "\<exists>old. (old \<in> set c \<or> old = (T, [])) \<and> set bucket \<subseteq> set (snd old)"
  proof -
    from bucket show ?thesis
    proof
      assume "(T, bucket) \<in> set c1"
      from c1 [OF this] show ?thesis
        by (intro exI [of _ "(T, bucket)"]) auto
    next
      assume "bucket = []"
      then show ?thesis
        by (intro exI [of _ "(T, [])"]) simp
    qed
  qed
  from assms t have "entry \<in> set c1 \<or> entry = (T, bucket @ [i]) \<or>
      entry = (T, filter (\<lambda>j. j \<noteq> i) bucket)"
    by (auto dest: update_entries split: if_splits)
  then consider "entry \<in> set c1" | "entry = (T, bucket @ [i])"
    | "entry = (T, filter (\<lambda>j. j \<noteq> i) bucket)"
    by blast
  then show ?thesis
  proof cases
    case 1
    from c1 [OF this] show ?thesis
      by (intro exI [of _ entry]) auto
  next
    case 2
    from old obtain e where "e \<in> set c \<or> e = (T, [])" "set bucket \<subseteq> set (snd e)"
      by blast
    with 2 show ?thesis
      by (intro exI [of _ e]) auto
  next
    case 3
    from old obtain e where "e \<in> set c \<or> e = (T, [])" "set bucket \<subseteq> set (snd e)"
      by blast
    with 3 show ?thesis
      by (intro exI [of _ e]) auto
  qed
qed

lemma updateStreak_ids:
  assumes "moves_back z"
  shows "\<exists>s'. updateStreak z s now i = Some s' \<and> completions_entry s' = completions_entry s \<and>
     map habit_id (load_habits s') = map habit_id (load_habits s)"
proof (cases "find (\<lambda>h. habit_id h = i) (load_habits s)")
  case None
  then show ?thesis
    by (simp add: updateStreak_missing)
next
  case (Some h)
  from computeStreak_returns [OF assms, of "frequency h" "load_completions s" i now]
  obtain n :: nat where n: "computeStreak z (frequency h) (load_completions s) i now = Some (int n)"
    by blast
  from findIndex_Some [OF Some]
  have "map habit_id ((load_habits s)[nat (findIndex (\<lambda>h. habit_id h = i) (load_habits s)) :=
          h\<lparr>streak := int n\<rparr>]) = map habit_id (load_habits s)"
    by (intro map_update_same) simp_all
  with updateStreak_found [OF Some n] show ?thesis
    by simp
qed

lemma integrity_toggle_known:
  assumes "referential_integrity s"
    and "i \<in> set (map habit_id (load_habits s))"
    and "moves_back z"
  shows "\<exists>s'. toggleHabitCompletion z s now i b = Some s' \<and> referential_integrity s'"
proof -
  let ?c = "toggled (load_completions s) (getTodayKey now) i b"
  let ?s1 = "s\<lparr>completions_entry := Some ?c\<rparr>"
  from updateStreak_ids [OF assms(3), of ?s1 now i] obtain s'
    where s': "updateStreak z ?s1 now i = Some s'" "completions_entry s' = Some ?c"
      "map habit_id (load_habits s') = map habit_id (load_habits s)"
    by auto
  have "set (snd entry) \<subseteq> set (map habit_id (load_habits s))" if "entry \<in> set ?c" for entry
  proof -
    from toggled_entries [OF that] obtain old
      where old: "old \<in> set (load_completions s) \<or> old = (getTodayKey now, [])"
        "set (snd entry) \<subseteq> insert i (set (snd old))"
      by blast
    from old(1) assms(1) have "set (snd old) \<subseteq> set (map habit_id (load_habits s))"
      by (auto simp: integrity_iff)
    with old(2) assms(2) show ?thesis
      by auto
  qed
  with s'(2,3) have "referential_integrity s'"
    by (simp add: integrity_iff load_completions_def)
  with s'(1) show ?thesis
    by (simp add: toggleHabitCompletion_def Let_def)
qed

lemma distinct_keys_toggled:
  "distinct (map fst c) \<Longrightarrow> distinct (map fst (toggled c T i b))"
  by (simp add: toggled_def Let_def distinct_update)

lemma distinct_keys_deleteHabit:
  "distinct (map fst (load_completions s)) \<Longrightarrow> distinct (map fst (load_completions (deleteHabit s i)))"
  by (simp add: deleteHabit_def Let_def case_prod_beta comp_def)

text \<open>
  Claim C2 at a failing input. On the initialized empty storage, where every id in the
  index is the id of a habit, a toggle to completed for the id 1, which no habit has, is
  not a no-op: it stores 1 in today's bucket, and the index then holds an id without a
  habit. The habit added next gets the id 1, and its statistics on that day report it
  completed though it was never toggled.
\<close>

theorem toggle_unknown_id_breaks_integrity:
  "referential_integrity (initializeDatabase empty_storage) \<and>
   toggleHabitCompletion z (initializeDatabase empty_storage) (noon (ymd 2024 1 3)) 1 True =
     Some \<lparr>habits_entry = Some [], completions_entry = Some [(ymd 2024 1 3, [1])]\<rparr> \<and>
   \<not> referential_integrity
       \<lparr>habits_entry = Some [], completions_entry = Some [(ymd 2024 1 3, [1])]\<rparr> \<and>
   fst (addHabit \<lparr>habits_entry = Some [], completions_entry = Some [(ymd 2024 1 3, [1])]\<rparr>
          (noon (ymd 2024 1 3)) ''Exercise'' None None None None None) = 1 \<and>
   fst (getHabitStats z
          (snd (addHabit \<lparr>habits_entry = Some [], completions_entry = Some [(ymd 2024 1 3, [1])]\<rparr>
                  (noon (ymd 2024 1 3)) ''Exercise'' None None None None None))
          (noon (ymd 2024 1 3)) 1) =
     \<lparr>stats_streak = 0, completed = 1, total_required = 1, completion_rate = 100\<rparr>"
  by (simp add: getTodayKey_noon referential_integrity_def initializeDatabase_def
      empty_storage_def toggleHabitCompletion_def toggled_def updateStreak_def load_habits_def
      load_completions_def addHabit_def getHabitStats_def isCompleted_def bucket_includes_def)

end
